theory Spec2Isabelle
  imports Complex_Main "HOL-Library.Log_Nat"
begin

section \<open>Python values, exceptions and IEEE double arithmetic\<close>

text \<open>
  The planner is Python. Its numbers are unbounded integers and IEEE-754 binary64 floats.
  A finite float is represented by the rational it denotes; the two zeros are identified
  (no operation below observes the sign of a zero). Every exception the modelled code can
  raise is a value of \<open>pyerr\<close>, returned on the left of a sum.
\<close>

datatype pyerr = ValueError string | OverflowError | ZeroDivisionError | IndexError

datatype pyfloat = Fin rat | PInf | NInf | NaN

datatype pynum = IntN int | FloatN pyfloat

datatype pyval = PyNum pynum | PyStr string | PyNone

definition bnd :: "'e + 'a \<Rightarrow> ('a \<Rightarrow> 'e + 'b) \<Rightarrow> 'e + 'b" where
  "bnd m f = (case m of Inl e \<Rightarrow> Inl e | Inr v \<Rightarrow> f v)"

definition pow2 :: "int \<Rightarrow> rat" where
  "pow2 e = (if 0 \<le> e then 2 ^ nat e else 1 / 2 ^ nat (- e))"

text \<open>Round to the nearest integer, ties to the even one: Python's \<open>round\<close> on a float.\<close>

definition round_half_even :: "rat \<Rightarrow> int" where
  "round_half_even x =
     (let f = \<lfloor>x\<rfloor>; d = x - of_int f
      in if d < 1 / 2 then f else if 1 / 2 < d then f + 1 else if even f then f else f + 1)"

text \<open>\<open>ilog2 x\<close> is the binary exponent of a positive rational: \<open>2^e \<le> x < 2^(e+1)\<close>.\<close>

definition ilog2 :: "rat \<Rightarrow> int" where
  "ilog2 x =
     (let (p, q) = quotient_of x;
          d = int (floorlog 2 (nat p)) - int (floorlog 2 (nat q))
      in if pow2 d \<le> x then d else d - 1)"

text \<open>
  Rounding of an exact result to binary64, round-to-nearest-even: 53 significant bits,
  gradual underflow below \<open>2^-1022\<close> (spacing \<open>2^-1074\<close>), overflow to an infinity
  from \<open>2^1024\<close> on.
\<close>

definition round_double :: "rat \<Rightarrow> pyfloat" where
  "round_double x =
     (if x = 0 then Fin 0
      else let e = max (ilog2 \<bar>x\<bar> - 52) (- 1074);
               y = of_int (round_half_even (x / pow2 e)) * pow2 e
           in if pow2 1024 \<le> \<bar>y\<bar> then (if 0 < x then PInf else NInf) else Fin y)"

fun fneg :: "pyfloat \<Rightarrow> pyfloat" where
  "fneg (Fin x) = Fin (- x)"
| "fneg PInf = NInf"
| "fneg NInf = PInf"
| "fneg NaN = NaN"

fun fadd :: "pyfloat \<Rightarrow> pyfloat \<Rightarrow> pyfloat" where
  "fadd NaN _ = NaN"
| "fadd _ NaN = NaN"
| "fadd (Fin x) (Fin y) = round_double (x + y)"
| "fadd PInf NInf = NaN"
| "fadd NInf PInf = NaN"
| "fadd PInf _ = PInf"
| "fadd NInf _ = NInf"
| "fadd (Fin x) PInf = PInf"
| "fadd (Fin x) NInf = NInf"

definition fsub :: "pyfloat \<Rightarrow> pyfloat \<Rightarrow> pyfloat" where
  "fsub a b = fadd a (fneg b)"

text \<open>Sign of a float: \<open>1\<close>, \<open>0\<close> or \<open>-1\<close> (\<open>NaN\<close> is handled before it is asked).\<close>

fun fsign :: "pyfloat \<Rightarrow> int" where
  "fsign (Fin x) = (if 0 < x then 1 else if x < 0 then - 1 else 0)"
| "fsign PInf = 1"
| "fsign NInf = - 1"
| "fsign NaN = 0"

definition inf_of_sign :: "int \<Rightarrow> pyfloat" where
  "inf_of_sign s = (if s = 0 then NaN else if 0 < s then PInf else NInf)"

fun fmul :: "pyfloat \<Rightarrow> pyfloat \<Rightarrow> pyfloat" where
  "fmul NaN _ = NaN"
| "fmul _ NaN = NaN"
| "fmul (Fin x) (Fin y) = round_double (x * y)"
| "fmul a b = inf_of_sign (fsign a * fsign b)"

text \<open>Float division; Python raises \<open>ZeroDivisionError\<close> for every zero divisor.\<close>

fun fdiv :: "pyfloat \<Rightarrow> pyfloat \<Rightarrow> pyerr + pyfloat" where
  "fdiv a (Fin y) =
     (if y = 0 then Inl ZeroDivisionError
      else case a of
             Fin x \<Rightarrow> Inr (round_double (x / y))
           | NaN \<Rightarrow> Inr NaN
           | _ \<Rightarrow> Inr (inf_of_sign (fsign a * fsign (Fin y))))"
| "fdiv NaN _ = Inr NaN"
| "fdiv _ NaN = Inr NaN"
| "fdiv (Fin x) _ = Inr (Fin 0)"
| "fdiv _ _ = Inr NaN"

text \<open>Conversion of an int to a float is correctly rounded and raises on overflow.\<close>

definition float_of_int :: "int \<Rightarrow> pyerr + pyfloat" where
  "float_of_int n =
     (case round_double (of_int n) of Fin y \<Rightarrow> Inr (Fin y) | _ \<Rightarrow> Inl OverflowError)"

definition to_float :: "pynum \<Rightarrow> pyerr + pyfloat" where
  "to_float v = (case v of IntN n \<Rightarrow> float_of_int n | FloatN f \<Rightarrow> Inr f)"

text \<open>The binary operators: int with int stays int, anything else is done in floats.\<close>

definition py_mul :: "pynum \<Rightarrow> pynum \<Rightarrow> pyerr + pynum" where
  "py_mul a b =
     (case (a, b) of
        (IntN m, IntN n) \<Rightarrow> Inr (IntN (m * n))
      | _ \<Rightarrow> bnd (to_float a) (\<lambda>x. bnd (to_float b) (\<lambda>y. Inr (FloatN (fmul x y)))))"

definition py_add :: "pynum \<Rightarrow> pynum \<Rightarrow> pyerr + pynum" where
  "py_add a b =
     (case (a, b) of
        (IntN m, IntN n) \<Rightarrow> Inr (IntN (m + n))
      | _ \<Rightarrow> bnd (to_float a) (\<lambda>x. bnd (to_float b) (\<lambda>y. Inr (FloatN (fadd x y)))))"

definition py_sub :: "pynum \<Rightarrow> pynum \<Rightarrow> pyerr + pynum" where
  "py_sub a b =
     (case (a, b) of
        (IntN m, IntN n) \<Rightarrow> Inr (IntN (m - n))
      | _ \<Rightarrow> bnd (to_float a) (\<lambda>x. bnd (to_float b) (\<lambda>y. Inr (FloatN (fsub x y)))))"

text \<open>
  True division \<open>/\<close>: int by int is the correctly rounded quotient (an error when it is
  too large for a float); otherwise both operands become floats first.
\<close>

definition py_truediv :: "pynum \<Rightarrow> pynum \<Rightarrow> pyerr + pynum" where
  "py_truediv a b =
     (case (a, b) of
        (IntN m, IntN n) \<Rightarrow>
          if n = 0 then Inl ZeroDivisionError
          else (case round_double (of_int m / of_int n) of
                  Fin y \<Rightarrow> Inr (FloatN (Fin y))
                | _ \<Rightarrow> Inl OverflowError)
      | _ \<Rightarrow> bnd (to_float a) (\<lambda>x. bnd (to_float b) (\<lambda>y.
               bnd (fdiv x y) (\<lambda>q. Inr (FloatN q)))))"

text \<open>\<open>round(x)\<close> with one argument returns an int.\<close>

definition py_round :: "pynum \<Rightarrow> pyerr + int" where
  "py_round v =
     (case v of
        IntN n \<Rightarrow> Inr n
      | FloatN (Fin x) \<Rightarrow> Inr (round_half_even x)
      | FloatN NaN \<Rightarrow> Inl (ValueError ''cannot convert float NaN to integer'')
      | FloatN _ \<Rightarrow> Inl OverflowError)"

text \<open>\<open>v <= 0\<close>; every comparison with \<open>NaN\<close> is false.\<close>

definition py_le_zero :: "pynum \<Rightarrow> bool" where
  "py_le_zero v =
     (case v of
        IntN n \<Rightarrow> n \<le> 0
      | FloatN (Fin x) \<Rightarrow> x \<le> 0
      | FloatN NInf \<Rightarrow> True
      | FloatN _ \<Rightarrow> False)"

section \<open>calorie\_splitter.py\<close>

text \<open>The float literals \<open>0.275\<close> and \<open>0.325\<close> denote the nearest doubles.\<close>

definition breakfast_pct :: pyfloat where "breakfast_pct = round_double (275 / 1000)"
definition lunch_pct :: pyfloat where "lunch_pct = round_double (325 / 1000)"
definition dinner_pct :: pyfloat where "dinner_pct = round_double (275 / 1000)"

text \<open>\<open>round(total_calories * pct / 10) * 10\<close>\<close>

definition round_to_10 :: "pynum \<Rightarrow> pyfloat \<Rightarrow> pyerr + int" where
  "round_to_10 total_calories pct =
     bnd (py_mul total_calories (FloatN pct)) (\<lambda>a.
     bnd (py_truediv a (IntN 10)) (\<lambda>b.
     bnd (py_round b) (\<lambda>r. Inr (r * 10))))"

text \<open>\<open>round(remaining_cal / 2 / 10) * 10\<close>\<close>

definition snack_of_remaining :: "pynum \<Rightarrow> pyerr + int" where
  "snack_of_remaining remaining_cal =
     bnd (py_truediv remaining_cal (IntN 2)) (\<lambda>a.
     bnd (py_truediv a (IntN 10)) (\<lambda>b.
     bnd (py_round b) (\<lambda>r. Inr (r * 10))))"

text \<open>
  \<open>bool\<close> is a subclass of \<open>int\<close> in Python, so \<open>True\<close> and \<open>False\<close> are the ints
  1 and 0 here; every value that is neither an int nor a float fails the
  \<open>isinstance\<close> test. The result is the dictionary in insertion order. The second
  message is the source's without its inner quotation marks.
\<close>

definition split_calories :: "pyval \<Rightarrow> pyval \<Rightarrow> pyerr + (string \<times> int) list" where
  "split_calories total_calories meal_frequency =
     (case total_calories of
        PyNum t \<Rightarrow>
          if py_le_zero t then Inl (ValueError ''Total calories must be a positive number'')
          else if meal_frequency \<notin> set [PyStr ''3 meals'', PyStr ''3 meals + 2 snacks'']
          then Inl (ValueError ''Meal frequency must be either 3 meals or 3 meals + 2 snacks'')
          else
            bnd (round_to_10 t breakfast_pct) (\<lambda>breakfast_cal.
            bnd (round_to_10 t lunch_pct) (\<lambda>lunch_cal.
            bnd (round_to_10 t dinner_pct) (\<lambda>dinner_cal.
              let calorie_distribution =
                    [(''breakfast'', breakfast_cal), (''lunch'', lunch_cal), (''dinner'', dinner_cal)]
              in if meal_frequency = PyStr ''3 meals + 2 snacks''
                 then
                   bnd (py_sub t (IntN (breakfast_cal + lunch_cal + dinner_cal))) (\<lambda>remaining_cal.
                   bnd (snack_of_remaining remaining_cal) (\<lambda>snack_cal.
                     Inr (calorie_distribution @ [(''snack_1'', snack_cal), (''snack_2'', snack_cal)])))
                 else Inr calorie_distribution)))
      | _ \<Rightarrow> Inl (ValueError ''Total calories must be a positive number''))"

section \<open>Strings\<close>

text \<open>
  A string is the list of its code points, a \<open>char\<close> being a code point below 256
  (Latin-1). On these \<open>str.lower\<close> maps A-Z and the capital letters U+00C0-U+00DE
  (but not U+00D7) to the code point 32 above, and \<open>str.strip\<close> removes the white space
  U+0009-U+000D, U+001C-U+0020, U+0085 and U+00A0.
\<close>

definition lower_char :: "char \<Rightarrow> char" where
  "lower_char c =
     (case map_of (zip ''ABCDEFGHIJKLMNOPQRSTUVWXYZ'' ''abcdefghijklmnopqrstuvwxyz'' @
         [(CHR 0xC0, CHR 0xE0), (CHR 0xC1, CHR 0xE1), (CHR 0xC2, CHR 0xE2), (CHR 0xC3, CHR 0xE3),
          (CHR 0xC4, CHR 0xE4), (CHR 0xC5, CHR 0xE5), (CHR 0xC6, CHR 0xE6), (CHR 0xC7, CHR 0xE7),
          (CHR 0xC8, CHR 0xE8), (CHR 0xC9, CHR 0xE9), (CHR 0xCA, CHR 0xEA), (CHR 0xCB, CHR 0xEB),
          (CHR 0xCC, CHR 0xEC), (CHR 0xCD, CHR 0xED), (CHR 0xCE, CHR 0xEE), (CHR 0xCF, CHR 0xEF),
          (CHR 0xD0, CHR 0xF0), (CHR 0xD1, CHR 0xF1), (CHR 0xD2, CHR 0xF2), (CHR 0xD3, CHR 0xF3),
          (CHR 0xD4, CHR 0xF4), (CHR 0xD5, CHR 0xF5), (CHR 0xD6, CHR 0xF6), (CHR 0xD8, CHR 0xF8),
          (CHR 0xD9, CHR 0xF9), (CHR 0xDA, CHR 0xFA), (CHR 0xDB, CHR 0xFB), (CHR 0xDC, CHR 0xFC),
          (CHR 0xDD, CHR 0xFD), (CHR 0xDE, CHR 0xFE)]) c of
        None \<Rightarrow> c
      | Some l \<Rightarrow> l)"

definition py_lower :: "string \<Rightarrow> string" where
  "py_lower s = map lower_char s"

definition is_space :: "char \<Rightarrow> bool" where
  "is_space c \<longleftrightarrow>
     c \<in> set [CHR 0x09, CHR 0x0A, CHR 0x0B, CHR 0x0C, CHR 0x0D,
               CHR 0x1C, CHR 0x1D, CHR 0x1E, CHR 0x1F, CHR '' '', CHR 0x85, CHR 0xA0]"

definition py_strip :: "string \<Rightarrow> string" where
  "py_strip s = rev (dropWhile is_space (rev (dropWhile is_space s)))"

text \<open>\<open>s.replace(a, b)\<close> for single characters \<open>a\<close> and \<open>b\<close>.\<close>

definition py_replace :: "char \<Rightarrow> char \<Rightarrow> string \<Rightarrow> string" where
  "py_replace a b s = map (\<lambda>c. if c = a then b else c) s"

text \<open>\<open>sub in s\<close> for strings: \<open>sub\<close> occurs in \<open>s\<close> as a contiguous piece.\<close>

fun py_in_str :: "string \<Rightarrow> string \<Rightarrow> bool" where
  "py_in_str sub [] = (sub = [])"
| "py_in_str sub (c # s) = (take (length sub) (c # s) = sub \<or> py_in_str sub s)"

text \<open>\<open>d.get(key, default)\<close> on a key that may be absent.\<close>

definition get_or :: "'a \<Rightarrow> 'a option \<Rightarrow> 'a" where
  "get_or dflt v = (case v of None \<Rightarrow> dflt | Some x \<Rightarrow> x)"

section \<open>More of Python's numbers\<close>

text \<open>\<open>int(x)\<close> truncates a float towards zero.\<close>

definition py_int :: "pynum \<Rightarrow> pyerr + int" where
  "py_int v =
     (case v of
        IntN n \<Rightarrow> Inr n
      | FloatN (Fin x) \<Rightarrow> Inr (if 0 \<le> x then \<lfloor>x\<rfloor> else \<lceil>x\<rceil>)
      | FloatN NaN \<Rightarrow> Inl (ValueError ''cannot convert float NaN to integer'')
      | FloatN _ \<Rightarrow> Inl OverflowError)"

text \<open>\<open>a <= b\<close> on floats; every comparison with \<open>NaN\<close> is false.\<close>

fun fle :: "pyfloat \<Rightarrow> pyfloat \<Rightarrow> bool" where
  "fle NaN _ = False"
| "fle _ NaN = False"
| "fle (Fin x) (Fin y) = (x \<le> y)"
| "fle NInf _ = True"
| "fle _ PInf = True"
| "fle _ _ = False"

text \<open>\<open>a < b\<close> on floats.\<close>

fun flt :: "pyfloat \<Rightarrow> pyfloat \<Rightarrow> bool" where
  "flt NaN _ = False"
| "flt _ NaN = False"
| "flt (Fin x) (Fin y) = (x < y)"
| "flt PInf _ = False"
| "flt _ NInf = False"
| "flt _ _ = True"

text \<open>\<open>a < b\<close> on numbers; an int is compared with a float exactly.\<close>

fun py_lt :: "pynum \<Rightarrow> pynum \<Rightarrow> bool" where
  "py_lt (IntN m) (IntN n) = (m < n)"
| "py_lt (IntN m) (FloatN b) = flt (Fin (of_int m)) b"
| "py_lt (FloatN a) (IntN n) = flt a (Fin (of_int n))"
| "py_lt (FloatN a) (FloatN b) = flt a b"

text \<open>A decimal float literal denotes the nearest double.\<close>

definition lit :: "rat \<Rightarrow> pyfloat" where
  "lit x = round_double x"

section \<open>api.py: the caloric target\<close>

text \<open>
  \<open>calculate_bmr\<close>: \<open>weight_kg\<close> is a float, \<open>height_cm\<close> and \<open>age\<close> are ints
  (the request model declares them so).
\<close>

definition calculate_bmr :: "pyfloat \<Rightarrow> int \<Rightarrow> int \<Rightarrow> string \<Rightarrow> pyerr + pynum" where
  "calculate_bmr weight_kg height_cm age gender =
     bnd (py_mul (IntN 10) (FloatN weight_kg)) (\<lambda>a.
     bnd (py_mul (FloatN (lit (625 / 100))) (IntN height_cm)) (\<lambda>b.
     bnd (py_add a b) (\<lambda>ab.
     bnd (py_mul (IntN 5) (IntN age)) (\<lambda>c.
     bnd (py_sub ab c) (\<lambda>base_calc.
       if gender = ''Male'' then py_add base_calc (IntN 5) else py_sub base_calc (IntN 161))))))"

definition get_activity_factor :: "string \<Rightarrow> pyfloat" where
  "get_activity_factor lifestyle_type =
     get_or (lit (12 / 10))
       (map_of [(''sedentary'', lit (12 / 10)), (''active'', lit (155 / 100)),
                (''elderly'', lit (12 / 10)), (''athletic'', lit (1725 / 1000))]
          (py_lower lifestyle_type))"

definition goal_adjustments :: "(string \<times> pyfloat) list" where
  "goal_adjustments =
     [(''Weight Loss'', lit (85 / 100)), (''Muscle Gain'', lit (115 / 100)),
      (''Maintenance'', lit 1), (''Recovery'', lit (11 / 10))]"

text \<open>
  The caloric target computed by the endpoint \<open>generate_meal_plan\<close>:
  \<open>caloric_intake = round(bmr * activity_factor)\<close>, then
  \<open>adjusted_calories = int(caloric_intake * adjustment)\<close>.
\<close>

definition adjusted_calories ::
  "pyfloat \<Rightarrow> int \<Rightarrow> int \<Rightarrow> string \<Rightarrow> string \<Rightarrow> string \<Rightarrow> pyerr + int" where
  "adjusted_calories weight_kg height_cm age gender lifestyle_type primary_goal =
     bnd (calculate_bmr weight_kg height_cm age gender) (\<lambda>bmr.
     bnd (py_mul bmr (FloatN (get_activity_factor lifestyle_type))) (\<lambda>x.
     bnd (py_round x) (\<lambda>caloric_intake.
       let adjustment = get_or (lit 1) (map_of goal_adjustments primary_goal)
       in bnd (py_mul (IntN caloric_intake) (FloatN adjustment)) py_int)))"

section \<open>dish\_filter.py\<close>

text \<open>
  A dish and a user profile are dictionaries read with \<open>get\<close>; a field that may be
  absent is an option. Tags are strings, numbers are as the catalogue declares them
  (\<open>calories\<close> and \<open>protein_grams\<close> ints, the ranking contributions ints). The entries of
  \<open>known_allergies\<close> are arbitrary values, since the code tests them with \<open>isinstance\<close>.
  The user's key \<open>persona_tags\<close> is the field \<open>user_persona_tags\<close>.
\<close>

record dish =
  meal_type :: "string option"
  calories :: "int option"
  protein_grams :: "int option"
  diet_tags :: "string list option"
  allergy_risks :: "string list option"
  region :: "string option"
  attribute_rankings :: "(string \<times> (string \<times> int) list) list option"
  time_of_day_suitability :: "string list option"
  persona_tags :: "string list option"

record user_data =
  weight_kg :: "pynum option"
  primary_goal :: "string option"
  lifestyle_type :: "string option"
  dietary_strictness :: "string option"
  flavor_preferences :: "string option"
  prep_skill_level :: "string option"
  affordability_preference :: "string option"
  known_allergies :: "pyval list option"
  preferred_meal_times :: "string list option"
  user_persona_tags :: "string list option"
  Region :: "string option"

definition meal_type_mapping :: "(string \<times> string) list" where
  "meal_type_mapping =
     [(''morning'', ''breakfast''), (''afternoon'', ''lunch''), (''evening'', ''dinner''),
      (''night'', ''dinner''), (''snacks'', ''snack'')]"

definition protein_requirements :: "(string \<times> pyfloat) list" where
  "protein_requirements =
     [(''muscle gain'', lit (22 / 10)), (''weight loss'', lit (16 / 10)),
      (''recovery'', lit (18 / 10)), (''cardiac'', lit (12 / 10)), (''diabetes'', lit (12 / 10)),
      (''maintenance'', lit 1), (''medical therapy'', lit (14 / 10))]"

definition calculate_user_protein_needs :: "user_data \<Rightarrow> pyerr + pynum" where
  "calculate_user_protein_needs u =
     (let weight = get_or (IntN 70) (weight_kg u);
          goal = py_replace (CHR ''_'') (CHR '' '')
                   (py_replace (CHR '' '') (CHR ''_'')
                      (py_lower (get_or ''maintenance'' (primary_goal u))));
          lifestyle = py_lower (get_or ''sedentary'' (lifestyle_type u));
          activity_multipliers =
            [(''athletic'', lit (12 / 10)), (''active'', lit (11 / 10)),
             (''sedentary'', lit 1), (''elderly'', lit (9 / 10))];
          multiplier = get_or (lit 1) (map_of activity_multipliers lifestyle)
      in bnd (py_mul (FloatN (get_or (lit 1) (map_of protein_requirements goal))) weight)
           (\<lambda>base_protein. py_mul base_protein (FloatN multiplier)))"

definition normalize_health_goal :: "string \<Rightarrow> string" where
  "normalize_health_goal goal =
     get_or (py_replace (CHR ''_'') (CHR '' '') goal)
       (map_of [(''weight_loss'', ''weight loss''), (''muscle_gain'', ''muscle gain''),
                (''medical_therapy'', ''medical recovery''), (''cardiac'', ''cardiac''),
                (''diabetes'', ''diabetes''), (''maintenance'', ''maintenance''),
                (''recovery'', ''recovery'')] goal)"

text \<open>
  \<open>normalize_user_preferences\<close>: one entry per frontend key that is present and not
  empty, in the order of \<open>field_mapping\<close>.
\<close>

definition normalize_user_preferences :: "user_data \<Rightarrow> (string \<times> string) list" where
  "normalize_user_preferences u =
     concat (map (\<lambda>(frontend_key, field, dish_key).
        (case field of
           None \<Rightarrow> []
         | Some v \<Rightarrow>
             if v = [] then []
             else let value = py_replace (CHR '' '') (CHR ''_'') (py_lower v)
                  in [(dish_key, if frontend_key = ''primary_goal''
                                 then normalize_health_goal value else value)]))
       [(''primary_goal'', primary_goal u, ''health_suitability''),
        (''lifestyle_type'', lifestyle_type u, ''lifestyle_suitability''),
        (''dietary_strictness'', dietary_strictness u, ''dietary_suitability''),
        (''flavor_preferences'', flavor_preferences u, ''flavor_profile''),
        (''prep_skill_level'', prep_skill_level u, ''prep_complexity''),
        (''affordability_preference'', affordability_preference u, ''ingredient_affordability'')])"

text \<open>
  \<open>_calculate_protein_score\<close>; the result is one of the ints 0, 3, 2, 1, -1. The ratio
  \<open>dish_protein / target_protein\<close> divides an int by a float: the int is converted, then
  the floats are divided.
\<close>

definition calculate_protein_score :: "dish \<Rightarrow> pyfloat \<Rightarrow> pyerr + int" where
  "calculate_protein_score d target_protein =
     (let dish_protein = get_or 0 (protein_grams d)
      in if target_protein = Fin 0 then Inr 0
         else bnd (float_of_int dish_protein) (\<lambda>p.
              bnd (fdiv p target_protein) (\<lambda>protein_ratio.
                if fle (lit (8 / 10)) protein_ratio \<and> fle protein_ratio (lit (12 / 10)) then Inr 3
                else if fle (lit (6 / 10)) protein_ratio \<and> fle protein_ratio (lit (14 / 10)) then Inr 2
                else if fle (lit (4 / 10)) protein_ratio \<and> fle protein_ratio (lit (16 / 10)) then Inr 1
                else Inr (- 1))))"

text \<open>\<open>_calculate_caloric_score\<close>\<close>

definition calculate_caloric_score :: "dish \<Rightarrow> (string \<times> int) list \<Rightarrow> int" where
  "calculate_caloric_score d caloric_rankings =
     (let dish_calories = get_or 0 (calories d);
          density = (if dish_calories < 200 then ''low''
                     else if dish_calories > 500 then ''high'' else ''moderate'')
      in get_or 0 (map_of caloric_rankings density))"

text \<open>\<open>_calculate_dietary_compatibility\<close>\<close>

definition calculate_dietary_compatibility :: "dish \<Rightarrow> user_data \<Rightarrow> int" where
  "calculate_dietary_compatibility d u =
     (let dish_diet_tags = map py_lower (get_or [] (diet_tags d));
          user_dietary = py_lower (get_or [] (dietary_strictness u));
          score = (if user_dietary \<in> set dish_diet_tags then 3 else 0);
          dietary_conflicts =
            [(''vegan'', [''non-vegetarian'', ''dairy'']), (''vegetarian'', [''non-vegetarian'']),
             (''diabetic-friendly'', [''high-sugar'', ''sweet'']), (''gluten-free'', [''gluten''])]
      in case map_of dietary_conflicts user_dietary of
           None \<Rightarrow> score
         | Some conflicts \<Rightarrow>
             if \<exists>conflict \<in> set conflicts. conflict \<in> set dish_diet_tags
             then score - 5 else score)"

text \<open>
  The user's allergy set: the string entries of \<open>known_allergies\<close> that are not blank,
  stripped and lower-cased. \<open>_calculate_allergy_risk\<close> and \<open>_has_allergy_conflict\<close>
  build the same set (one tests the key, the other reads it with an empty default).
\<close>

definition user_allergies :: "user_data \<Rightarrow> string list" where
  "user_allergies u =
     remdups (concat (map (\<lambda>allergy.
        case allergy of
          PyStr s \<Rightarrow> if py_strip s \<noteq> [] then [py_lower (py_strip s)] else []
        | _ \<Rightarrow> [])
       (get_or [] (known_allergies u))))"

definition dish_allergens :: "dish \<Rightarrow> string list" where
  "dish_allergens d = remdups (map py_lower (get_or [] (allergy_risks d)))"

text \<open>\<open>_calculate_allergy_risk\<close>: minus the number of conflicts.\<close>

definition calculate_allergy_risk :: "dish \<Rightarrow> user_data \<Rightarrow> int" where
  "calculate_allergy_risk d u =
     (let conflicts = filter (\<lambda>a. a \<in> set (dish_allergens d)) (user_allergies u)
      in if conflicts \<noteq> [] then - int (length conflicts) else 0)"

text \<open>
  \<open>_calculate_meal_timing_score\<close>: the int 0, or the number of distinct matching tags
  times 0.5.
\<close>

definition calculate_meal_timing_score :: "dish \<Rightarrow> user_data \<Rightarrow> pyerr + pynum" where
  "calculate_meal_timing_score d u =
     (let user_meal_times = get_or [] (preferred_meal_times u);
          dish_suitable_times = get_or [] (time_of_day_suitability d)
      in if user_meal_times = [] \<or> dish_suitable_times = [] then Inr (IntN 0)
         else
           let dish_times = concat (map (\<lambda>time.
                 if py_lower time \<in> fst ` set meal_type_mapping
                 then filter (\<lambda>t. py_in_str (py_lower time) (py_lower t)) dish_suitable_times
                 else []) user_meal_times)
           in py_mul (IntN (int (length (remdups dish_times)))) (FloatN (lit (5 / 10))))"

text \<open>\<open>_calculate_persona_match\<close>\<close>

definition calculate_persona_match :: "dish \<Rightarrow> user_data \<Rightarrow> pyerr + pynum" where
  "calculate_persona_match d u =
     (let user_personas = remdups (get_or [] (user_persona_tags u));
          dish_personas = remdups (get_or [] (persona_tags d))
      in if user_personas = [] \<or> dish_personas = [] then Inr (IntN 0)
         else
           let matches = filter (\<lambda>p. p \<in> set dish_personas) user_personas
           in py_mul (IntN (int (length matches))) (FloatN (lit (5 / 10))))"

text \<open>
  The seven steps of \<open>calculate_comprehensive_score\<close>, each adding its weighted factor
  to the running \<open>total_score\<close>.
\<close>

definition add_weighted :: "pynum \<Rightarrow> pynum \<Rightarrow> pyfloat \<Rightarrow> pyerr + pynum" where
  "add_weighted total_score factor weight =
     bnd (py_mul factor (FloatN weight)) (\<lambda>x. py_add total_score x)"

definition add_attribute_rankings :: "dish \<Rightarrow> user_data \<Rightarrow> pynum \<Rightarrow> pyerr + pynum" where
  "add_attribute_rankings d u total_score =
     (let rankings = get_or [] (attribute_rankings d);
          attribute_score = sum_list (map (\<lambda>(pref_key, pref_value).
              case map_of rankings pref_key of
                None \<Rightarrow> 0
              | Some table \<Rightarrow> get_or 0 (map_of table pref_value))
            (normalize_user_preferences u))
      in add_weighted total_score (IntN attribute_score) (lit 1))"

definition add_caloric_alignment :: "dish \<Rightarrow> int option \<Rightarrow> pynum \<Rightarrow> pyerr + pynum" where
  "add_caloric_alignment d target_calories total_score =
     (let rankings = get_or [] (attribute_rankings d)
      in if target_calories = None \<or> target_calories = Some 0 then Inr total_score
         else case map_of rankings ''caloric_density'' of
                None \<Rightarrow> Inr total_score
              | Some caloric_rankings \<Rightarrow>
                  add_weighted total_score (IntN (calculate_caloric_score d caloric_rankings))
                    (lit (3 / 10)))"

definition add_protein_alignment :: "dish \<Rightarrow> pyfloat option \<Rightarrow> pynum \<Rightarrow> pyerr + pynum" where
  "add_protein_alignment d target_protein total_score =
     (case target_protein of
        None \<Rightarrow> Inr total_score
      | Some t \<Rightarrow>
          if t = Fin 0 then Inr total_score
          else bnd (calculate_protein_score d t) (\<lambda>protein_score.
                 add_weighted total_score (IntN protein_score) (lit (15 / 10))))"

definition add_dietary_match :: "dish \<Rightarrow> user_data \<Rightarrow> pynum \<Rightarrow> pyerr + pynum" where
  "add_dietary_match d u total_score =
     add_weighted total_score (IntN (calculate_dietary_compatibility d u)) (lit 2)"

text \<open>The allergy weight is \<open>abs(-10.0)\<close>.\<close>

definition add_allergy_risk :: "dish \<Rightarrow> user_data \<Rightarrow> pynum \<Rightarrow> pyerr + pynum" where
  "add_allergy_risk d u total_score =
     add_weighted total_score (IntN (calculate_allergy_risk d u)) (lit 10)"

definition add_meal_timing :: "dish \<Rightarrow> user_data \<Rightarrow> pynum \<Rightarrow> pyerr + pynum" where
  "add_meal_timing d u total_score =
     bnd (calculate_meal_timing_score d u) (\<lambda>timing_score.
       add_weighted total_score timing_score (lit (5 / 10)))"

definition add_persona_bonus :: "dish \<Rightarrow> user_data \<Rightarrow> pynum \<Rightarrow> pyerr + pynum" where
  "add_persona_bonus d u total_score =
     bnd (calculate_persona_match d u) (\<lambda>persona_score.
       add_weighted total_score persona_score (lit (8 / 10)))"

definition calculate_comprehensive_score ::
  "dish \<Rightarrow> user_data \<Rightarrow> int option \<Rightarrow> pyfloat option \<Rightarrow> pyerr + pynum" where
  "calculate_comprehensive_score d u target_calories target_protein =
     bnd (add_attribute_rankings d u (FloatN (Fin 0))) (\<lambda>s1.
     bnd (add_caloric_alignment d target_calories s1) (\<lambda>s2.
     bnd (add_protein_alignment d target_protein s2) (\<lambda>s3.
     bnd (add_dietary_match d u s3) (\<lambda>s4.
     bnd (add_allergy_risk d u s4) (\<lambda>s5.
     bnd (add_meal_timing d u s5) (\<lambda>s6.
     add_persona_bonus d u s6))))))"

text \<open>\<open>_has_allergy_conflict\<close> and \<open>_has_dietary_conflict\<close>\<close>

definition has_allergy_conflict :: "dish \<Rightarrow> user_data \<Rightarrow> bool" where
  "has_allergy_conflict d u =
     (filter (\<lambda>a. a \<in> set (dish_allergens d)) (user_allergies u) \<noteq> [])"

definition has_dietary_conflict :: "dish \<Rightarrow> user_data \<Rightarrow> bool" where
  "has_dietary_conflict d u =
     (let user_dietary = py_lower (get_or [] (dietary_strictness u));
          dish_diet_tags = map py_lower (get_or [] (diet_tags d))
      in case map_of [(''vegan'', ''non-vegetarian''), (''vegetarian'', ''non-vegetarian'')]
                user_dietary of
           None \<Rightarrow> False
         | Some tag \<Rightarrow> tag \<in> set dish_diet_tags)"

text \<open>\<open>filter_dishes_by_constraints\<close>: the loop keeps a dish unless a check skips it.\<close>

definition keeps_dish :: "user_data \<Rightarrow> dish \<Rightarrow> bool" where
  "keeps_dish u d =
     (if has_allergy_conflict d u then False
      else if has_dietary_conflict d u then False
      else let user_region = py_lower (get_or [] (Region u))
           in \<not> (user_region \<noteq> [] \<and> py_lower (get_or [] (region d)) \<noteq> user_region))"

definition filter_dishes_by_constraints :: "dish list \<Rightarrow> user_data \<Rightarrow> dish list" where
  "filter_dishes_by_constraints dishes u = filter (keeps_dish u) dishes"

text \<open>
  \<open>list.sort(key=..., reverse=True)\<close>: descending by score and stable. A dish is put
  behind every dish already placed whose score is not smaller.
\<close>

fun insert_desc :: "'a \<times> pynum \<Rightarrow> ('a \<times> pynum) list \<Rightarrow> ('a \<times> pynum) list" where
  "insert_desc x [] = [x]"
| "insert_desc x (y # ys) = (if py_lt (snd y) (snd x) then x # y # ys else y # insert_desc x ys)"

definition sort_desc :: "('a \<times> pynum) list \<Rightarrow> ('a \<times> pynum) list" where
  "sort_desc xs = foldl (\<lambda>acc x. insert_desc x acc) [] xs"

text \<open>\<open>xs[:n]\<close>; a negative \<open>n\<close> counts from the end.\<close>

definition slice_to :: "int \<Rightarrow> 'a list \<Rightarrow> 'a list" where
  "slice_to n xs = (if 0 \<le> n then take (nat n) xs else take (length xs - nat (- n)) xs)"

text \<open>The scoring loop stops at the first exception.\<close>

fun score_all ::
  "user_data \<Rightarrow> int option \<Rightarrow> pyfloat option \<Rightarrow> dish list \<Rightarrow> pyerr + (dish \<times> pynum) list" where
  "score_all u tc tp [] = Inr []"
| "score_all u tc tp (d # ds) =
     bnd (calculate_comprehensive_score d u tc tp) (\<lambda>score.
     bnd (score_all u tc tp ds) (\<lambda>rest. Inr ((d, score) # rest)))"

definition get_best_dishes_by_meal_type ::
  "dish list \<Rightarrow> user_data \<Rightarrow> string \<Rightarrow> int option \<Rightarrow> pyfloat option \<Rightarrow> int
     \<Rightarrow> pyerr + dish list" where
  "get_best_dishes_by_meal_type dishes u mt target_calories target_protein top_n =
     (let meal_dishes = filter (\<lambda>d. py_lower (get_or [] (meal_type d)) = py_lower mt) dishes
      in if meal_dishes = [] then Inr []
         else let filtered_dishes = filter_dishes_by_constraints meal_dishes u
              in if filtered_dishes = [] then Inr []
                 else bnd (score_all u target_calories target_protein filtered_dishes)
                        (\<lambda>scored_dishes. Inr (map fst (slice_to top_n (sort_desc scored_dishes)))))"

text \<open>
  \<open>random.choice(seq)\<close> with the index \<open>r\<close> drawn by the generator; on an empty
  sequence it raises \<open>IndexError\<close>.
\<close>

definition random_choice :: "nat \<Rightarrow> 'a list \<Rightarrow> pyerr + 'a" where
  "random_choice r xs = (if xs = [] then Inl IndexError else Inr (xs ! (r mod length xs)))"

definition get_optimal_dish ::
  "nat \<Rightarrow> dish list \<Rightarrow> user_data \<Rightarrow> string \<Rightarrow> int option \<Rightarrow> pyfloat option \<Rightarrow> int
     \<Rightarrow> pyerr + dish option" where
  "get_optimal_dish r dishes u mt target_calories target_protein randomize_top_n =
     bnd (get_best_dishes_by_meal_type dishes u mt target_calories target_protein randomize_top_n)
       (\<lambda>top_dishes.
          if top_dishes = [] then Inr None
          else bnd (random_choice r top_dishes) (\<lambda>d. Inr (Some d)))"

definition find_best_dish :: "nat \<Rightarrow> dish list \<Rightarrow> user_data \<Rightarrow> int \<Rightarrow> pyerr + dish option" where
  "find_best_dish r dishes u top_n =
     (let filtered_dishes = filter_dishes_by_constraints dishes u
      in if filtered_dishes = [] then Inr None
         else
           bnd (calculate_user_protein_needs u) (\<lambda>daily_protein.
           bnd (py_mul daily_protein (FloatN (lit (3 / 10)))) (\<lambda>target_protein.
           bnd (to_float target_protein) (\<lambda>tp.
           bnd (score_all u None (Some tp) filtered_dishes) (\<lambda>scored_dishes.
             let top_dishes = map fst (slice_to top_n (sort_desc scored_dishes))
             in if top_dishes = [] then Inr None
                else bnd (random_choice r top_dishes) (\<lambda>d. Inr (Some d)))))))"

text \<open>The empty dictionaries, from which examples are built by setting keys.\<close>

definition blank_dish :: dish where
  "blank_dish =
     \<lparr>meal_type = None, calories = None, protein_grams = None, diet_tags = None,
      allergy_risks = None, region = None, attribute_rankings = None,
      time_of_day_suitability = None, persona_tags = None\<rparr>"

definition blank_user :: user_data where
  "blank_user =
     \<lparr>weight_kg = None, primary_goal = None, lifestyle_type = None, dietary_strictness = None,
      flavor_preferences = None, prep_skill_level = None, affordability_preference = None,
      known_allergies = None, preferred_meal_times = None, user_persona_tags = None,
      Region = None\<rparr>"

section \<open>Facts about the double-precision kernel\<close>

lemma pow2_powi: "pow2 e = 2 powi e"
  by (simp add: pow2_def power_int_def inverse_eq_divide power_one_over)

lemma pow2_pos [simp]: "0 < pow2 e"
  by (simp add: pow2_powi)

lemma pow2_nonneg [simp]: "0 \<le> pow2 e"
  by (rule less_imp_le) (rule pow2_pos)

lemma pow2_nonzero [simp]: "pow2 e \<noteq> 0"
  by (metis pow2_pos less_irrefl)

lemma pow2_abs [simp]: "\<bar>pow2 e\<bar> = pow2 e"
  by (rule abs_of_pos) (rule pow2_pos)

lemma pow2_add: "pow2 (a + b) = pow2 a * pow2 b"
  by (simp add: pow2_powi power_int_add)

lemma pow2_diff: "pow2 (a - b) = pow2 a / pow2 b"
  by (simp add: pow2_powi power_int_diff)

lemma pow2_strict_mono: "a < b \<Longrightarrow> pow2 a < pow2 b"
  by (simp add: pow2_powi power_int_strict_increasing)

lemma pow2_mono: "a \<le> b \<Longrightarrow> pow2 a \<le> pow2 b"
  by (simp add: pow2_powi power_int_increasing)

lemma pow2_less_iff [simp]: "pow2 a < pow2 b \<longleftrightarrow> a < b"
proof
  assume h: "pow2 a < pow2 b"
  show "a < b"
  proof (rule ccontr)
    assume "\<not> a < b"
    then have "pow2 b \<le> pow2 a" by (simp add: pow2_mono)
    with h show False by simp
  qed
qed (rule pow2_strict_mono)

lemma pow2_le_iff [simp]: "pow2 a \<le> pow2 b \<longleftrightarrow> a \<le> b"
  using pow2_less_iff [of b a] by (simp only: not_less [symmetric])

lemma pow2_nat: "pow2 (int n) = 2 ^ n"
  by (simp add: pow2_def)

lemma round_half_even_bounds:
  "\<bar>of_int (round_half_even x) - x\<bar> \<le> 1 / 2"
proof -
  have f1: "of_int \<lfloor>x\<rfloor> \<le> x" and f2: "x < of_int \<lfloor>x\<rfloor> + 1" by linarith+
  show ?thesis
    unfolding round_half_even_def Let_def using f1 f2
    by (auto simp: abs_le_iff)
qed

lemma round_half_even_of_int [simp]: "round_half_even (of_int n) = n"
  by (simp add: round_half_even_def)

lemma round_half_even_minus: "round_half_even (- x) = - round_half_even x"
proof (cases "x \<in> \<int>")
  case True
  then obtain n where "x = of_int n" by (auto elim: Ints_cases)
  then show ?thesis by (simp flip: of_int_minus)
next
  case False
  then have ne: "x \<noteq> of_int \<lfloor>x\<rfloor>" by (metis Ints_of_int)
  then have fl: "\<lfloor>- x\<rfloor> = - \<lfloor>x\<rfloor> - 1"
    by (simp add: floor_minus ceiling_altdef)
  show ?thesis
    unfolding round_half_even_def Let_def fl
    by (auto simp: algebra_simps)
qed

lemma round_half_even_mono_bound:
  assumes "\<bar>x\<bar> \<le> of_int n"
  shows "\<bar>round_half_even x\<bar> \<le> n"
proof -
  have a: "x \<le> of_int n" and b: "- of_int n \<le> x" using assms by (auto simp: abs_le_iff)
  have fu: "\<lfloor>x\<rfloor> \<le> n" using a by (simp add: floor_le_iff)
  have fl: "- n \<le> \<lfloor>x\<rfloor>" using b by (simp add: le_floor_iff)
  have cs: "round_half_even x = \<lfloor>x\<rfloor> \<or> round_half_even x = \<lfloor>x\<rfloor> + 1"
    by (simp add: round_half_even_def Let_def)
  show ?thesis
  proof (cases "\<lfloor>x\<rfloor> = n")
    case True
    then have "of_int n \<le> x" using of_int_floor_le [of x] by simp
    with a have "x = of_int n" by simp
    then show ?thesis using fl True by simp
  next
    case False
    then have "\<lfloor>x\<rfloor> + 1 \<le> n" using fu by simp
    then show ?thesis using cs fl fu by (auto simp: abs_le_iff)
  qed
qed

lemma ilog2_bounds:
  assumes "0 < x"
  shows "pow2 (ilog2 x) \<le> x \<and> x < pow2 (ilog2 x + 1)"
proof -
  obtain p q where pq: "quotient_of x = (p, q)" by (cases "quotient_of x")
  have q: "0 < q" using pq by (rule quotient_of_denom_pos)
  have x: "x = of_int p / of_int q" using pq by (rule quotient_of_div)
  have p: "0 < p" using assms q x by (simp add: zero_less_divide_iff)
  define a where "a = floorlog 2 (nat p)"
  define b where "b = floorlog 2 (nat q)"
  define d where "d = int a - int b"
  have pa: "2 ^ (a - 1) \<le> nat p \<and> nat p < 2 ^ a"
    unfolding a_def using floorlog_bounds [of "nat p" 2] p by simp
  have qb: "2 ^ (b - 1) \<le> nat q \<and> nat q < 2 ^ b"
    unfolding b_def using floorlog_bounds [of "nat q" 2] q by simp
  have a1: "1 \<le> a" using pa p by (cases a) auto
  have b1: "1 \<le> b" using qb q by (cases b) auto
  have pr: "(2::rat) ^ (a - 1) \<le> of_int p" "(of_int p :: rat) < 2 ^ a"
  proof -
    have "(of_nat (2 ^ (a - 1)) :: rat) \<le> of_nat (nat p)" using pa by (simp only: of_nat_le_iff)
    then show "(2::rat) ^ (a - 1) \<le> of_int p" using p by simp
    have "(of_nat (nat p) :: rat) < of_nat (2 ^ a)" using pa by (simp only: of_nat_less_iff)
    then show "(of_int p :: rat) < 2 ^ a" using p by simp
  qed
  have qr: "(2::rat) ^ (b - 1) \<le> of_int q" "(of_int q :: rat) < 2 ^ b"
  proof -
    have "(of_nat (2 ^ (b - 1)) :: rat) \<le> of_nat (nat q)" using qb by (simp only: of_nat_le_iff)
    then show "(2::rat) ^ (b - 1) \<le> of_int q" using q by simp
    have "(of_nat (nat q) :: rat) < of_nat (2 ^ b)" using qb by (simp only: of_nat_less_iff)
    then show "(of_int q :: rat) < 2 ^ b" using q by simp
  qed
  have qpos: "(0::rat) < of_int q" using q by simp
  have ppos: "(0::rat) < of_int p" using p by simp
  have up: "x < pow2 (d + 1)"
  proof -
    have "pow2 (d + 1) = 2 ^ a / 2 ^ (b - 1)"
    proof -
      have "d + 1 = int a - int (b - 1)" using b1 by (simp add: d_def)
      then show ?thesis by (simp add: pow2_diff pow2_nat)
    qed
    moreover have "of_int p / of_int q < (2::rat) ^ a / 2 ^ (b - 1)"
      using pr qr qpos ppos by (intro frac_less) auto
    ultimately show ?thesis using x by simp
  qed
  have lo: "pow2 (d - 1) \<le> x"
  proof -
    have "pow2 (d - 1) = 2 ^ (a - 1) / 2 ^ b"
    proof -
      have "d - 1 = int (a - 1) - int b" using a1 by (simp add: d_def)
      then show ?thesis by (simp add: pow2_diff pow2_nat)
    qed
    moreover have "(2::rat) ^ (a - 1) / 2 ^ b \<le> of_int p / of_int q"
      using pr qr qpos ppos by (intro frac_le) auto
    ultimately show ?thesis using x by simp
  qed
  have il: "ilog2 x = (if pow2 d \<le> x then d else d - 1)"
    unfolding ilog2_def pq by (simp add: Let_def a_def b_def d_def)
  show ?thesis
  proof (cases "pow2 d \<le> x")
    case True
    then show ?thesis using up il by simp
  next
    case False
    then show ?thesis using lo il by simp
  qed
qed

lemma ilog2_unique:
  assumes "0 < x" "pow2 k \<le> x" "x < pow2 (k + 1)"
  shows "ilog2 x = k"
proof -
  have b: "pow2 (ilog2 x) \<le> x" "x < pow2 (ilog2 x + 1)"
    using ilog2_bounds [OF assms(1)] by auto
  have "pow2 (ilog2 x) < pow2 (k + 1)" using b(1) assms(3) by (rule le_less_trans)
  moreover have "pow2 k < pow2 (ilog2 x + 1)" using assms(2) b(2) by (rule le_less_trans)
  ultimately show ?thesis by simp
qed

lemma pow2_53: "pow2 53 = of_int (2 ^ 53)"
  by (simp add: pow2_def)

lemma round_double_eqI:
  assumes nz: "x \<noteq> 0"
    and lo: "pow2 k \<le> \<bar>x\<bar>" and hi: "\<bar>x\<bar> < pow2 (k + 1)"
    and k1: "- 1022 \<le> k" and k2: "k < 1023"
  shows "round_double x = Fin (of_int (round_half_even (x / pow2 (k - 52))) * pow2 (k - 52))"
proof -
  have il: "ilog2 \<bar>x\<bar> = k" using nz lo hi by (intro ilog2_unique) auto
  have e: "max (ilog2 \<bar>x\<bar> - 52) (- 1074) = k - 52" using il k1 by simp
  define y where "y = of_int (round_half_even (x / pow2 (k - 52))) * pow2 (k - 52)"
  have e1: "k + 1 = 53 + (k - 52)" by simp
  have "\<bar>x / pow2 (k - 52)\<bar> = \<bar>x\<bar> / pow2 (k - 52)" by (simp add: abs_divide)
  also have "\<dots> \<le> pow2 (k + 1) / pow2 (k - 52)"
    using hi by (intro divide_right_mono) auto
  also have "\<dots> = pow2 53" by (simp flip: pow2_diff)
  finally have "\<bar>x / pow2 (k - 52)\<bar> \<le> of_int (2 ^ 53)" by (simp only: pow2_53)
  then have "\<bar>round_half_even (x / pow2 (k - 52))\<bar> \<le> 2 ^ 53"
    by (rule round_half_even_mono_bound)
  then have "\<bar>(of_int (round_half_even (x / pow2 (k - 52))) :: rat)\<bar> \<le> of_int (2 ^ 53)"
    by (simp only: of_int_abs [symmetric] of_int_le_iff)
  then have "\<bar>y\<bar> \<le> pow2 53 * pow2 (k - 52)"
    unfolding y_def pow2_53 by (simp add: abs_mult mult_right_mono)
  also have "\<dots> = pow2 (k + 1)" unfolding e1 by (rule pow2_add [symmetric])
  also have "\<dots> < pow2 1024" using k2 by simp
  finally have "\<not> pow2 1024 \<le> \<bar>y\<bar>" by simp
  then show ?thesis
    unfolding round_double_def e Let_def using nz by (simp add: y_def)
qed

lemma round_double_error:
  assumes lo: "pow2 (- 1022) \<le> \<bar>x\<bar>" and hi: "\<bar>x\<bar> < pow2 1023"
  shows "\<exists>y. round_double x = Fin y \<and> \<bar>y - x\<bar> \<le> \<bar>x\<bar> / 2 ^ 53"
proof -
  have xpos: "0 < \<bar>x\<bar>" using lo pow2_pos [of "- 1022"] by linarith
  then have nz: "x \<noteq> 0" by simp
  define k where "k = ilog2 \<bar>x\<bar>"
  have kb: "pow2 k \<le> \<bar>x\<bar>" "\<bar>x\<bar> < pow2 (k + 1)"
    using ilog2_bounds [OF xpos] by (auto simp: k_def)
  have "pow2 (- 1022) < pow2 (k + 1)" using lo kb(2) by (rule le_less_trans)
  then have k1: "- 1022 \<le> k" by simp
  have "pow2 k < pow2 1023" using kb(1) hi by (rule le_less_trans)
  then have k2: "k < 1023" by simp
  define e where "e = k - 52"
  define y where "y = of_int (round_half_even (x / pow2 e)) * pow2 e"
  have r: "round_double x = Fin y"
    unfolding y_def e_def by (rule round_double_eqI [OF nz kb k1 k2])
  have "y - x = (of_int (round_half_even (x / pow2 e)) - x / pow2 e) * pow2 e"
    unfolding y_def using pow2_pos [of e] by (simp add: field_simps)
  then have "\<bar>y - x\<bar> = \<bar>of_int (round_half_even (x / pow2 e)) - x / pow2 e\<bar> * pow2 e"
    by (simp add: abs_mult)
  also have "\<dots> \<le> (1 / 2) * pow2 e"
    by (intro mult_right_mono round_half_even_bounds) simp
  also have "\<dots> = pow2 k / 2 ^ 53"
  proof -
    have "pow2 e = pow2 k / pow2 52" unfolding e_def by (rule pow2_diff)
    then show ?thesis by (simp add: pow2_def)
  qed
  also have "\<dots> \<le> \<bar>x\<bar> / 2 ^ 53" using kb(1) by (simp add: divide_right_mono)
  finally show ?thesis using r by blast
qed

lemma round_double_exact:
  assumes x: "x = of_int m * pow2 j" and m: "\<bar>m\<bar> < 2 ^ 53"
    and j1: "- 1074 \<le> j" and j2: "j \<le> 970"
  shows "round_double x = Fin x"
proof (cases "m = 0")
  case True
  then show ?thesis using x by (simp add: round_double_def)
next
  case False
  then have nz: "x \<noteq> 0" using x pow2_pos [of j] by simp
  have ax: "\<bar>x\<bar> = of_int \<bar>m\<bar> * pow2 j" using x by (simp add: abs_mult)
  have m2: "(of_int \<bar>m\<bar> :: rat) < pow2 53" unfolding pow2_53 using m by (simp only: of_int_less_iff)
  have xpos: "0 < \<bar>x\<bar>" using nz by simp
  define k where "k = ilog2 \<bar>x\<bar>"
  have kb: "pow2 k \<le> \<bar>x\<bar>" "\<bar>x\<bar> < pow2 (k + 1)"
    using ilog2_bounds [OF xpos] by (auto simp: k_def)
  have "\<bar>x\<bar> < pow2 53 * pow2 j" unfolding ax using m2 by (simp add: mult_strict_right_mono)
  then have xlt: "\<bar>x\<bar> < pow2 (53 + j)" by (simp add: pow2_add)
  have "pow2 k < pow2 (53 + j)" using kb(1) xlt by (rule le_less_trans)
  then have ke: "k - 52 \<le> j" by simp
  define e where "e = max (k - 52) (- 1074)"
  have ej: "e \<le> j" unfolding e_def using ke j1 by simp
  have "pow2 j = pow2 (j - e) * pow2 e" by (simp flip: pow2_add)
  also have "pow2 (j - e) = of_int (2 ^ nat (j - e))" using ej by (simp add: pow2_def)
  finally have xe: "x / pow2 e = of_int (m * 2 ^ nat (j - e))"
    using x pow2_pos [of e] by (simp add: field_simps)
  have y: "of_int (round_half_even (x / pow2 e)) * pow2 e = x"
    unfolding xe round_half_even_of_int using xe pow2_pos [of e] by (simp add: field_simps)
  have "pow2 (53 + j) \<le> pow2 1024" using j2 by simp
  with xlt have "\<bar>x\<bar> < pow2 1024" by (rule less_le_trans)
  then have "\<not> pow2 1024 \<le> \<bar>x\<bar>" by (simp only: not_le)
  then show ?thesis
    unfolding round_double_def Let_def using nz y by (simp add: k_def e_def)
qed

subsection \<open>Evaluating a rounding at a given exponent\<close>

lemma round_half_even_evalI:
  assumes "\<bar>of_int n - x\<bar> < 1 / 2 \<or> (\<bar>of_int n - x\<bar> = 1 / 2 \<and> even n)"
  shows "round_half_even x = n"
proof (cases "\<bar>of_int n - x\<bar> < 1 / 2")
  case True
  show ?thesis
  proof (cases "of_int n \<le> x")
    case up: True
    have lt: "x < of_int n + 1 / 2" using True by linarith
    have "\<lfloor>x\<rfloor> = n" using up lt by (intro floor_unique) auto
    moreover have "x - of_int n < 1 / 2" using lt by linarith
    ultimately show ?thesis by (simp add: round_half_even_def Let_def)
  next
    case down: False
    have gt: "of_int n - 1 / 2 < x" using True by linarith
    have "\<lfloor>x\<rfloor> = n - 1" using down gt by (intro floor_unique) auto
    moreover have "\<not> x - of_int (n - 1) < 1 / 2" "1 / 2 < x - of_int (n - 1)"
      using gt by simp_all
    ultimately show ?thesis by (simp add: round_half_even_def Let_def)
  qed
next
  case False
  with assms have tie: "\<bar>of_int n - x\<bar> = 1 / 2" and ev: "even n" by auto
  show ?thesis
  proof (cases "of_int n \<le> x")
    case up: True
    have xe: "x = of_int n + 1 / 2" using tie up by linarith
    have "\<lfloor>x\<rfloor> = n" unfolding xe by (intro floor_unique) auto
    moreover have "x - of_int n = 1 / 2" using xe by simp
    ultimately show ?thesis using ev by (simp add: round_half_even_def Let_def)
  next
    case down: False
    have xe: "x = of_int n - 1 / 2" using tie down by linarith
    have "\<lfloor>x\<rfloor> = n - 1" unfolding xe by (intro floor_unique) auto
    moreover have "x - of_int (n - 1) = 1 / 2" using xe by simp
    ultimately show ?thesis using ev by (simp add: round_half_even_def Let_def)
  qed
qed

lemma round_half_even_0 [simp]: "round_half_even 0 = 0"
  using round_half_even_of_int [of 0] by simp

lemma round_half_even_1 [simp]: "round_half_even 1 = 1"
  using round_half_even_of_int [of 1] by simp

lemma round_half_even_numeral [simp]: "round_half_even (numeral k) = numeral k"
  using round_half_even_of_int [of "numeral k"] by simp

lemma round_half_even_neg_numeral [simp]: "round_half_even (- numeral k) = - numeral k"
  using round_half_even_of_int [of "- numeral k"] by simp

lemma round_double_evalI:
  assumes "x \<noteq> 0" "pow2 k \<le> \<bar>x\<bar>" "\<bar>x\<bar> < pow2 (k + 1)" "- 1022 \<le> k" "k < 1023"
    and "\<bar>of_int n - x / pow2 (k - 52)\<bar> < 1 / 2
         \<or> (\<bar>of_int n - x / pow2 (k - 52)\<bar> = 1 / 2 \<and> even n)"
    and "y = of_int n * pow2 (k - 52)"
  shows "round_double x = Fin y"
  using round_double_eqI [OF assms(1-5)] round_half_even_evalI [OF assms(6)] assms(7)
  by simp

lemma round_double_of_int:
  assumes "\<bar>n\<bar> < 2 ^ 53"
  shows "round_double (of_int n) = Fin (of_int n)"
  using round_double_exact [of "of_int n" n 0] assms by (simp add: pow2_def)

lemma float_of_int_exact: "\<bar>n\<bar> < 2 ^ 53 \<Longrightarrow> float_of_int n = Inr (Fin (of_int n))"
  by (simp add: float_of_int_def round_double_of_int)

subsection \<open>Overflow\<close>

lemma round_half_even_lower_bound:
  assumes "of_int n \<le> \<bar>x\<bar>"
  shows "n \<le> \<bar>round_half_even x\<bar>"
proof -
  have cs: "\<And>z. round_half_even z = \<lfloor>z\<rfloor> \<or> round_half_even z = \<lfloor>z\<rfloor> + 1"
    by (simp add: round_half_even_def Let_def)
  have pos: "n \<le> round_half_even z" if "of_int n \<le> z" for z
  proof -
    have "n \<le> \<lfloor>z\<rfloor>" using that by (simp add: le_floor_iff)
    then show ?thesis using cs [of z] by auto
  qed
  show ?thesis
  proof (cases "0 \<le> x")
    case True
    then have "n \<le> round_half_even x" using assms by (intro pos) simp
    then show ?thesis by simp
  next
    case False
    then have "n \<le> round_half_even (- x)" using assms by (intro pos) simp
    then show ?thesis by (simp add: round_half_even_minus)
  qed
qed

lemma round_double_overflow:
  assumes "pow2 1024 \<le> \<bar>x\<bar>"
  shows "round_double x = (if 0 < x then PInf else NInf)"
proof -
  have xpos: "0 < \<bar>x\<bar>" using assms pow2_pos [of 1024] by linarith
  then have nz: "x \<noteq> 0" by simp
  define k where "k = ilog2 \<bar>x\<bar>"
  have kb: "pow2 k \<le> \<bar>x\<bar>" "\<bar>x\<bar> < pow2 (k + 1)"
    using ilog2_bounds [OF xpos] by (auto simp: k_def)
  have "pow2 1024 < pow2 (k + 1)" using assms kb(2) by (rule le_less_trans)
  then have k: "1024 \<le> k" by simp
  have e: "max (ilog2 \<bar>x\<bar> - 52) (- 1074) = k - 52" using k by (simp add: k_def)
  define r where "r = round_half_even (x / pow2 (k - 52))"
  have "pow2 52 = pow2 k / pow2 (k - 52)" by (simp flip: pow2_diff)
  also have "\<dots> \<le> \<bar>x\<bar> / pow2 (k - 52)" using kb(1) by (intro divide_right_mono) auto
  also have "\<dots> = \<bar>x / pow2 (k - 52)\<bar>" by (simp add: abs_divide)
  finally have "of_int (2 ^ 52) \<le> \<bar>x / pow2 (k - 52)\<bar>" by (simp add: pow2_def)
  then have "2 ^ 52 \<le> \<bar>r\<bar>" unfolding r_def by (rule round_half_even_lower_bound)
  then have "(of_int (2 ^ 52) :: rat) \<le> \<bar>of_int r\<bar>"
    by (simp only: of_int_abs [symmetric] of_int_le_iff)
  then have "pow2 52 * pow2 (k - 52) \<le> \<bar>of_int r\<bar> * pow2 (k - 52)"
    by (intro mult_right_mono) (auto simp: pow2_def)
  moreover have "pow2 52 * pow2 (k - 52) = pow2 k" by (simp flip: pow2_add)
  ultimately have a: "pow2 k \<le> \<bar>of_int r\<bar> * pow2 (k - 52)" by (simp only:)
  have b: "pow2 1024 \<le> pow2 k" using k by simp
  have "pow2 1024 \<le> \<bar>of_int r\<bar> * pow2 (k - 52)" using b a by (rule order_trans)
  then have "pow2 1024 \<le> \<bar>of_int r * pow2 (k - 52)\<bar>" by (simp add: abs_mult)
  then show ?thesis
    unfolding round_double_def e Let_def using nz by (simp add: r_def)
qed

section \<open>Properties of the calorie split\<close>

subsection \<open>The percentages and one rounded share\<close>

lemma breakfast_pct_val: "breakfast_pct = Fin (2476979795053773 / 9007199254740992)"
  unfolding breakfast_pct_def
  by (rule round_double_evalI [where k = "- 2" and n = "4953959590107546"]) (simp_all add: pow2_def)

lemma lunch_pct_val: "lunch_pct = Fin (5854679515581645 / 18014398509481984)"
  unfolding lunch_pct_def
  by (rule round_double_evalI [where k = "- 2" and n = "5854679515581645"]) (simp_all add: pow2_def)

lemma dinner_pct_val: "dinner_pct = Fin (2476979795053773 / 9007199254740992)"
  unfolding dinner_pct_def
  by (rule round_double_evalI [where k = "- 2" and n = "4953959590107546"]) (simp_all add: pow2_def)

lemma float_of_int_10: "float_of_int 10 = Inr (Fin 10)"
  using float_of_int_exact [of 10] by simp

lemma float_of_int_2: "float_of_int 2 = Inr (Fin 2)"
  using float_of_int_exact [of 2] by simp

lemma pow2_neg1022_le_eighth: "pow2 (- 1022) \<le> 1 / 8"
proof -
  have "pow2 (- 1022) \<le> pow2 (- 3)" by simp
  also have "pow2 (- 3) = 1 / 8" by (simp add: pow2_def)
  finally show ?thesis .
qed

lemma pow2_53_le_1023: "(2::rat) ^ 53 < pow2 1023"
proof -
  have "pow2 53 < pow2 1023" by simp
  then show ?thesis by (simp add: pow2_def)
qed

text \<open>
  For an integer total below \<open>2^53\<close> and a share \<open>c\<close> between a quarter and a half, the
  rounded share is a multiple of 10 within \<open>5 + 3c\<close> of the exact product.
\<close>

lemma round_to_10_int:
  assumes T: "0 < T" "T < 2 ^ 53" and c: "1 / 4 \<le> c" "c \<le> 1 / 2"
  shows "\<exists>r. round_to_10 (IntN T) (Fin c) = Inr (r * 10)
           \<and> \<bar>of_int (r * 10) - of_int T * c\<bar> \<le> 5 + 3 * c"
proof -
  define x where "x = of_int T * c"
  define B where "B = x / 2 ^ 53"
  have T1: "(1::rat) \<le> of_int T" using T(1) by simp
  have T2: "(of_int T :: rat) < 2 ^ 53" using T(2) by (simp flip: of_int_less_iff)
  have cpos: "0 < c" using c(1) by simp
  have xlo: "1 / 4 \<le> x"
  proof -
    have "1 * c \<le> of_int T * c" using T1 cpos by (intro mult_right_mono) auto
    then have "c \<le> x" by (simp only: x_def mult_1)
    then show ?thesis using c(1) by linarith
  qed
  have xhi: "x < 2 ^ 53 * c" unfolding x_def using T2 cpos by (intro mult_strict_right_mono) auto
  then have xhi2: "x < 2 ^ 53" using c(2) by simp
  have Bc: "B \<le> c"
  proof -
    have "x / 2 ^ 53 \<le> (2 ^ 53 * c) / 2 ^ 53" using xhi by (intro divide_right_mono) auto
    then show ?thesis by (simp add: B_def)
  qed
  have Bpos: "0 < B" unfolding B_def using xlo by simp
  have "pow2 (- 1022) \<le> \<bar>x\<bar>" using pow2_neg1022_le_eighth xlo by simp
  moreover have "\<bar>x\<bar> < pow2 1023" using xhi2 xlo pow2_53_le_1023 by simp
  ultimately obtain v where v: "round_double x = Fin v" and ve: "\<bar>v - x\<bar> \<le> \<bar>x\<bar> / 2 ^ 53"
    using round_double_error [of x] by blast
  have ve': "\<bar>v - x\<bar> \<le> B" using ve xlo by (simp add: B_def)
  have B1: "B < 1" using Bc c(2) by simp
  have B8: "B \<le> x / 2" unfolding B_def using xlo by simp
  have vlo: "1 / 8 \<le> v" using ve' B8 xlo by (simp add: abs_le_iff)
  have vhi: "v < 2 ^ 53 + 1" using ve' xhi2 B1 by (simp add: abs_le_iff)
  have "pow2 (- 1022) \<le> \<bar>v / 10\<bar>"
  proof -
    have "pow2 (- 1022) \<le> pow2 (- 7)" by simp
    also have "pow2 (- 7) = 1 / 128" by (simp add: pow2_def)
    also have "\<dots> \<le> \<bar>v / 10\<bar>" using vlo by simp
    finally show ?thesis .
  qed
  moreover have "\<bar>v / 10\<bar> < pow2 1023" using vhi vlo pow2_53_le_1023 by simp
  ultimately obtain w where w: "round_double (v / 10) = Fin w"
    and we: "\<bar>w - v / 10\<bar> \<le> \<bar>v / 10\<bar> / 2 ^ 53"
    using round_double_error [of "v / 10"] by blast
  have "\<bar>v / 10\<bar> / 2 ^ 53 = (v / 2 ^ 53) / 10" using vlo by simp
  also have "v / 2 ^ 53 \<le> (x + B) / 2 ^ 53"
    using ve' by (intro divide_right_mono) (auto simp: abs_le_iff)
  also have "(x + B) / 2 ^ 53 = B + B / 2 ^ 53" by (simp add: B_def add_divide_distrib)
  also have "\<dots> \<le> 2 * B" using Bpos by simp
  finally have we': "\<bar>w - v / 10\<bar> \<le> (2 * B) / 10" using we by simp
  define r where "r = round_half_even w"
  have re: "\<bar>of_int r - w\<bar> \<le> 1 / 2" unfolding r_def by (rule round_half_even_bounds)
  have ev: "round_to_10 (IntN T) (Fin c) = Inr (r * 10)"
    using T by (simp add: round_to_10_def py_mul_def py_truediv_def py_round_def to_float_def
        bnd_def float_of_int_exact float_of_int_10 x_def [symmetric] v w r_def)
  have r10: "(of_int (r * 10) :: rat) = 10 * of_int r" by simp
  have "\<bar>of_int (r * 10) - x\<bar> \<le> 5 + 3 * B"
    unfolding r10 using re we' ve' by linarith
  then have "\<bar>of_int (r * 10) - x\<bar> \<le> 5 + 3 * c" using Bc by simp
  then show ?thesis using ev by (auto simp: x_def)
qed

text \<open>The three meal shares of an integer total below \<open>2^53\<close>.\<close>

lemma three_meals_int:
  assumes T: "0 < T" "T < 2 ^ 53"
  shows "\<exists>b l d. round_to_10 (IntN T) breakfast_pct = Inr b
           \<and> round_to_10 (IntN T) lunch_pct = Inr l
           \<and> round_to_10 (IntN T) dinner_pct = Inr d
           \<and> 10 dvd b \<and> 10 dvd l \<and> 10 dvd d
           \<and> \<bar>8 * (b + l + d) - 7 * T\<bar> \<le> 160"
proof -
  define cb :: rat where "cb = 2476979795053773 / 9007199254740992"
  define cl :: rat where "cl = 5854679515581645 / 18014398509481984"
  obtain rb where rb: "round_to_10 (IntN T) (Fin cb) = Inr (rb * 10)"
    and eb: "\<bar>of_int (rb * 10) - of_int T * cb\<bar> \<le> 5 + 3 * cb"
    using round_to_10_int [OF T, of cb] by (auto simp: cb_def)
  obtain rl where rl: "round_to_10 (IntN T) (Fin cl) = Inr (rl * 10)"
    and el: "\<bar>of_int (rl * 10) - of_int T * cl\<bar> \<le> 5 + 3 * cl"
    using round_to_10_int [OF T, of cl] by (auto simp: cl_def)
  define t :: rat where "t = of_int T"
  define xb where "xb = t * cb"
  define xl where "xl = t * cl"
  define ob :: rat where "ob = of_int (rb * 10)"
  define ol :: rat where "ol = of_int (rl * 10)"
  have t2: "t < 9007199254740992" unfolding t_def using T(2) by (simp flip: of_int_less_iff)
  have t1: "0 < t" unfolding t_def using T(1) by simp
  have eb': "\<bar>ob - xb\<bar> \<le> 6"
  proof -
    have "5 + 3 * cb \<le> 6" by (simp add: cb_def)
    then show ?thesis using eb unfolding ob_def xb_def t_def by linarith
  qed
  have el': "\<bar>ol - xl\<bar> \<le> 6"
  proof -
    have "5 + 3 * cl \<le> 6" by (simp add: cl_def)
    then show ?thesis using el unfolding ol_def xl_def t_def by linarith
  qed
  have cc: "2 * cb + cl = 7 / 8 + 1 / 18014398509481984" by (simp add: cb_def cl_def)
  have "xb + xl + xb = t * (2 * cb + cl)" by (simp add: xb_def xl_def algebra_simps)
  then have sum: "xb + xl + xb = 7 * t / 8 + t / 18014398509481984"
    unfolding cc by (simp add: algebra_simps)
  define u where "u = t / 18014398509481984"
  have u: "0 < u" "u < 1 / 2" unfolding u_def using t1 t2 by simp_all
  have sum': "xb + xl + xb = 7 * t / 8 + u" using sum by (simp only: u_def)
  have b1: "ob \<le> xb + 6" "xb - 6 \<le> ob" using eb' by (simp_all add: abs_le_iff)
  have b2: "ol \<le> xl + 6" "xl - 6 \<le> ol" using el' by (simp_all add: abs_le_iff)
  have s1: "ob + ol + ob \<le> (xb + xl + xb) + 18" using b1 b2 by linarith
  have s2: "(xb + xl + xb) - 18 \<le> ob + ol + ob" using b1 b2 by linarith
  have s3: "8 * (ob + ol + ob) \<le> 7 * t + 8 * u + 144" using s1 unfolding sum' by simp
  have s4: "7 * t + 8 * u - 144 \<le> 8 * (ob + ol + ob)" using s2 unfolding sum' by simp
  have up: "8 * (ob + ol + ob) - 7 * t < 160" using s3 u by linarith
  have dn: "- 160 < 8 * (ob + ol + ob) - 7 * t" using s4 u by linarith
  have main: "\<bar>8 * (ob + ol + ob) - 7 * t\<bar> < 160"
    using up dn by (simp only: abs_less_iff) simp
  define I where "I = 8 * (rb * 10 + rl * 10 + rb * 10) - 7 * T"
  have "(of_int I :: rat) = 8 * (ob + ol + ob) - 7 * t"
    by (simp add: I_def ob_def ol_def t_def)
  then have "\<bar>(of_int I :: rat)\<bar> < of_int 160" using main by simp
  then have "\<bar>I\<bar> < 160" by (simp only: of_int_abs [symmetric] of_int_less_iff)
  then have "\<bar>8 * (rb * 10 + rl * 10 + rb * 10) - 7 * T\<bar> \<le> 160" by (simp add: I_def)
  then show ?thesis
    using rb rl by (auto simp: breakfast_pct_val lunch_pct_val dinner_pct_val cb_def cl_def)
qed

subsection \<open>Concrete roundings used by the evaluations below\<close>

lemma sc_rd1: "round_double (11 / 40) = Fin (2476979795053773 / 9007199254740992)"
  by (rule round_double_evalI [where k = "- 2" and n = "4953959590107546"]) (simp_all add: pow2_def)

lemma sc_rd2: "round_double (13 / 40) = Fin (5854679515581645 / 18014398509481984)"
  by (rule round_double_evalI [where k = "- 2" and n = "5854679515581645"]) (simp_all add: pow2_def)

lemma sc_rd3: "round_double 10 = Fin 10"
  by (rule round_double_evalI [where k = "3" and n = "5629499534213120"]) (simp_all add: pow2_def)

lemma sc_rd4: "round_double 19 = Fin 19"
  by (rule round_double_evalI [where k = "4" and n = "5348024557502464"]) (simp_all add: pow2_def)

lemma sc_rd5: "round_double (47062616106021687 / 9007199254740992) = Fin (5882827013252711 / 1125899906842624)"
  by (rule round_double_evalI [where k = "2" and n = "5882827013252711"]) (simp_all add: pow2_def)

lemma sc_rd6: "round_double (5882827013252711 / 11258999068426240) = Fin (4706261610602169 / 9007199254740992)"
  by (rule round_double_evalI [where k = "- 1" and n = "4706261610602169"]) (simp_all add: pow2_def)

lemma sc_rhe1: "round_half_even (4706261610602169 / 9007199254740992) = 1"
  by (rule round_half_even_evalI) simp

lemma sc_rd7: "round_double (111238910796051255 / 18014398509481984) = Fin (6952431924753203 / 1125899906842624)"
  by (rule round_double_evalI [where k = "2" and n = "6952431924753203"]) (simp_all add: pow2_def)

lemma sc_rd8: "round_double (6952431924753203 / 11258999068426240) = Fin (2780972769901281 / 4503599627370496)"
  by (rule round_double_evalI [where k = "- 1" and n = "5561945539802562"]) (simp_all add: pow2_def)

lemma sc_rhe2: "round_half_even (2780972769901281 / 4503599627370496) = 1"
  by (rule round_half_even_evalI) simp

lemma sc_rd9: "round_double (- (11 / 2)) = Fin (- (11 / 2))"
  by (rule round_double_evalI [where k = "2" and n = "- 6192449487634432"]) (simp_all add: pow2_def)

lemma sc_rd10: "round_double (- (11 / 20)) = Fin (- (2476979795053773 / 4503599627370496))"
  by (rule round_double_evalI [where k = "- 1" and n = "- 4953959590107546"]) (simp_all add: pow2_def)

lemma sc_rhe3: "round_half_even (- (2476979795053773 / 4503599627370496)) = - 1"
  by (rule round_half_even_evalI) simp

lemma sc_rd11: "round_double 2000 = Fin 2000"
  by (rule round_double_evalI [where k = "10" and n = "8796093022208000"]) (simp_all add: pow2_def)

lemma sc_rd12: "round_double (309622474381721625 / 562949953421312) = Fin 550"
  by (rule round_double_evalI [where k = "9" and n = "4837851162214400"]) (simp_all add: pow2_def)

lemma sc_rd13: "round_double 55 = Fin 55"
  by (rule round_double_evalI [where k = "5" and n = "7740561859543040"]) (simp_all add: pow2_def)

lemma sc_rd14: "round_double (731834939447705625 / 1125899906842624) = Fin 650"
  by (rule round_double_evalI [where k = "9" and n = "5717460464435200"]) (simp_all add: pow2_def)

lemma sc_rd15: "round_double 65 = Fin 65"
  by (rule round_double_evalI [where k = "6" and n = "4573968371548160"]) (simp_all add: pow2_def)

lemma sc_rd16: "round_double 10000000000000000000000000 = Fin 10000000000000000905969664"
  by (rule round_double_evalI [where k = "83" and n = "4656612873077393"]) (simp_all add: pow2_def)

lemma sc_rd17: "round_double (11534336000000001976298425653789 / 4194304) = Fin 2750000000000000624951296"
  by (rule round_double_evalI [where k = "81" and n = "5122274160385133"]) (simp_all add: pow2_def)

lemma sc_rd18: "round_double (1375000000000000312475648 / 5) = Fin 275000000000000069206016"
  by (rule round_double_evalI [where k = "77" and n = "8195638656616213"]) (simp_all add: pow2_def)

lemma sc_rd19: "round_double (27262976000000003401265495251485 / 8388608) = Fin 3250000000000000348127232"
  by (rule round_double_evalI [where k = "81" and n = "6053596735000611"]) (simp_all add: pow2_def)

lemma sc_rd20: "round_double (1625000000000000174063616 / 5) = Fin 325000000000000048234496"
  by (rule round_double_evalI [where k = "78" and n = "4842877388000489"]) (simp_all add: pow2_def)

lemma sc_rd21: "round_double 624999999999999066767360 = Fin 624999999999999117099008"
  by (rule round_double_evalI [where k = "79" and n = "4656612873077386"]) (simp_all add: pow2_def)

lemma sc_rd22: "round_double (312499999999999558549504 / 5) = Fin 62499999999999915065344"
  by (rule round_double_evalI [where k = "75" and n = "7450580596923818"]) (simp_all add: pow2_def)

lemma sc_rd23: "round_double 1883 = Fin 1883"
  by (rule round_double_evalI [where k = "10" and n = "8281521580408832"]) (simp_all add: pow2_def)

lemma sc_rd24: "round_double (4664152954086254559 / 9007199254740992) = Fin (2277418434612429 / 4398046511104)"
  by (rule round_double_evalI [where k = "9" and n = "4554836869224858"]) (simp_all add: pow2_def)

lemma sc_rd25: "round_double (2277418434612429 / 43980465111040) = Fin (7287738990759773 / 140737488355328)"
  by (rule round_double_evalI [where k = "5" and n = "7287738990759773"]) (simp_all add: pow2_def)

lemma sc_rhe4: "round_half_even (7287738990759773 / 140737488355328) = 52"
  by (rule round_half_even_evalI) simp

lemma sc_rd26: "round_double (11024361527840237535 / 18014398509481984) = Fin (5382989027265741 / 8796093022208)"
  by (rule round_double_evalI [where k = "9" and n = "5382989027265741"]) (simp_all add: pow2_def)

lemma sc_rd27: "round_double (5382989027265741 / 87960930222080) = Fin (4306391221812593 / 70368744177664)"
  by (rule round_double_evalI [where k = "5" and n = "8612782443625186"]) (simp_all add: pow2_def)

lemma sc_rhe5: "round_half_even (4306391221812593 / 70368744177664) = 61"
  by (rule round_half_even_evalI) simp

lemma sc_rd28: "round_double (233 / 2) = Fin (233 / 2)"
  by (rule round_double_evalI [where k = "6" and n = "8197958696697856"]) (simp_all add: pow2_def)

lemma sc_rd29: "round_double (233 / 20) = Fin (6558366957358285 / 562949953421312)"
  by (rule round_double_evalI [where k = "3" and n = "6558366957358285"]) (simp_all add: pow2_def)

lemma sc_rhe6: "round_half_even (6558366957358285 / 562949953421312) = 12"
  by (rule round_half_even_evalI) simp

lemma sc_rd30: "round_double 1978 = Fin 1978"
  by (rule round_double_evalI [where k = "10" and n = "8699335998963712"]) (simp_all add: pow2_def)

lemma sc_rd31: "round_double (2449733017308181497 / 4503599627370496) = Fin (2392317399715021 / 4398046511104)"
  by (rule round_double_evalI [where k = "9" and n = "4784634799430042"]) (simp_all add: pow2_def)

lemma sc_rd32: "round_double (2392317399715021 / 43980465111040) = Fin (7655415679088067 / 140737488355328)"
  by (rule round_double_evalI [where k = "5" and n = "7655415679088067"]) (simp_all add: pow2_def)

lemma sc_rhe7: "round_half_even (7655415679088067 / 140737488355328) = 54"
  by (rule round_half_even_evalI) simp

lemma sc_rd33: "round_double (5790278040910246905 / 9007199254740992) = Fin (5654568399326413 / 8796093022208)"
  by (rule round_double_evalI [where k = "9" and n = "5654568399326413"]) (simp_all add: pow2_def)

lemma sc_rd34: "round_double (5654568399326413 / 87960930222080) = Fin (2261827359730565 / 35184372088832)"
  by (rule round_double_evalI [where k = "6" and n = "4523654719461130"]) (simp_all add: pow2_def)

lemma sc_rhe8: "round_half_even (2261827359730565 / 35184372088832) = 64"
  by (rule round_half_even_evalI) simp

lemma sc_rd35: "round_double 129 = Fin 129"
  by (rule round_double_evalI [where k = "7" and n = "4538783999459328"]) (simp_all add: pow2_def)

lemma sc_rd36: "round_double (129 / 10) = Fin (7262054399134925 / 562949953421312)"
  by (rule round_double_evalI [where k = "3" and n = "7262054399134925"]) (simp_all add: pow2_def)

lemma sc_rhe9: "round_half_even (7262054399134925 / 562949953421312) = 13"
  by (rule round_half_even_evalI) simp

lemma sc_rd37: "round_double 700 = Fin 700"
  by (rule round_double_evalI [where k = "9" and n = "6157265115545600"]) (simp_all add: pow2_def)

lemma sc_rd38: "round_double (25 / 4) = Fin (25 / 4)"
  by (rule round_double_evalI [where k = "2" and n = "7036874417766400"]) (simp_all add: pow2_def)

lemma sc_rd39: "round_double 175 = Fin 175"
  by (rule round_double_evalI [where k = "7" and n = "6157265115545600"]) (simp_all add: pow2_def)

lemma sc_rd40: "round_double (4375 / 4) = Fin (4375 / 4)"
  by (rule round_double_evalI [where k = "10" and n = "4810363371520000"]) (simp_all add: pow2_def)

lemma sc_rd41: "round_double (7175 / 4) = Fin (7175 / 4)"
  by (rule round_double_evalI [where k = "10" and n = "7888995929292800"]) (simp_all add: pow2_def)

lemma sc_rd42: "round_double 150 = Fin 150"
  by (rule round_double_evalI [where k = "7" and n = "5277655813324800"]) (simp_all add: pow2_def)

lemma sc_rd43: "round_double (6575 / 4) = Fin (6575 / 4)"
  by (rule round_double_evalI [where k = "10" and n = "7229288952627200"]) (simp_all add: pow2_def)

lemma sc_rd44: "round_double 5 = Fin 5"
  by (rule round_double_evalI [where k = "2" and n = "5629499534213120"]) (simp_all add: pow2_def)

lemma sc_rd45: "round_double (6595 / 4) = Fin (6595 / 4)"
  by (rule round_double_evalI [where k = "10" and n = "7251279185182720"]) (simp_all add: pow2_def)

lemma sc_rd46: "round_double (6 / 5) = Fin (5404319552844595 / 4503599627370496)"
  by (rule round_double_evalI [where k = "0" and n = "5404319552844595"]) (simp_all add: pow2_def)

lemma sc_rd47: "round_double (35641487451010104025 / 18014398509481984) = Fin (3957 / 2)"
  by (rule round_double_evalI [where k = "10" and n = "8701535022219264"]) (simp_all add: pow2_def)

lemma sc_rhe10: "round_half_even (3957 / 2) = 1978"
  by (rule round_half_even_evalI) simp

lemma sc_rd48: "round_double 1 = Fin 1"
  by (rule round_double_evalI [where k = "0" and n = "4503599627370496"]) (simp_all add: pow2_def)

subsection \<open>No rounding step yields a NaN\<close>

lemma round_double_not_nan [simp]: "round_double x \<noteq> NaN"
  by (simp add: round_double_def Let_def)

lemma fmul_not_nan: "a \<noteq> NaN \<Longrightarrow> 0 < c \<Longrightarrow> fmul a (Fin c) \<noteq> NaN"
  by (cases a) (simp_all add: inf_of_sign_def)

lemma fdiv_not_nan: "a \<noteq> NaN \<Longrightarrow> 0 < c \<Longrightarrow> \<exists>q. fdiv a (Fin c) = Inr q \<and> q \<noteq> NaN"
  by (cases a) (simp_all add: inf_of_sign_def)

lemma fsub_not_nan: "a \<noteq> NaN \<Longrightarrow> fsub a (Fin y) \<noteq> NaN"
  by (cases a) (simp_all add: fsub_def)

lemma float_of_int_cases:
  "float_of_int n = Inl OverflowError \<or> (\<exists>y. float_of_int n = Inr (Fin y))"
  by (simp add: float_of_int_def split: pyfloat.splits)

lemma py_round_not_nan: "q \<noteq> NaN \<Longrightarrow> py_round (FloatN q) \<noteq> Inl (ValueError msg)"
  by (cases q) (simp_all add: py_round_def)

lemma div_then_round_no_value_error:
  assumes "a \<noteq> NaN"
  shows "bnd (py_truediv (FloatN a) (IntN 10)) (\<lambda>b. bnd (py_round b) (\<lambda>r. Inr (r * 10)))
           \<noteq> Inl (ValueError msg)"
proof -
  obtain q where q: "fdiv a (Fin 10) = Inr q" "q \<noteq> NaN"
    using fdiv_not_nan [OF assms, of 10] by auto
  have "py_truediv (FloatN a) (IntN 10) = Inr (FloatN q)"
    by (simp add: py_truediv_def to_float_def bnd_def float_of_int_10 q del: fdiv.simps)
  then show ?thesis
    using py_round_not_nan [OF q(2), of msg]
    by (cases "py_round (FloatN q)") (simp_all add: bnd_def)
qed

lemma round_to_10_no_value_error:
  assumes "t \<noteq> FloatN NaN" "0 < c"
  shows "round_to_10 t (Fin c) \<noteq> Inl (ValueError msg)"
proof (cases t)
  case (IntN n)
  show ?thesis
  proof (cases "float_of_int n")
    case (Inl e)
    then have "e = OverflowError" using float_of_int_cases [of n] by auto
    then show ?thesis using Inl IntN
      by (simp add: round_to_10_def py_mul_def to_float_def bnd_def)
  next
    case (Inr f)
    then obtain y where y: "f = Fin y" using float_of_int_cases [of n] by auto
    have "py_mul t (FloatN (Fin c)) = Inr (FloatN (round_double (y * c)))"
      using Inr IntN y by (simp add: py_mul_def to_float_def bnd_def)
    then show ?thesis
      using div_then_round_no_value_error [of "round_double (y * c)" msg]
      by (simp add: round_to_10_def bnd_def)
  qed
next
  case (FloatN a)
  then have a: "a \<noteq> NaN" using assms(1) by simp
  have "py_mul t (FloatN (Fin c)) = Inr (FloatN (fmul a (Fin c)))"
    using FloatN by (simp add: py_mul_def to_float_def bnd_def)
  then show ?thesis
    using div_then_round_no_value_error [OF fmul_not_nan [OF a assms(2)], of msg]
    by (simp add: round_to_10_def bnd_def)
qed

lemma snack_of_remaining_no_value_error:
  assumes "r \<noteq> FloatN NaN"
  shows "snack_of_remaining r \<noteq> Inl (ValueError msg)"
proof (cases r)
  case (IntN n)
  show ?thesis
  proof (cases "round_double (of_int n / of_int 2)")
    case (Fin y)
    then have "py_truediv r (IntN 2) = Inr (FloatN (Fin y))"
      using IntN by (simp add: py_truediv_def)
    then show ?thesis
      using div_then_round_no_value_error [of "Fin y" msg]
      by (simp add: snack_of_remaining_def bnd_def)
  qed (use IntN in \<open>simp_all add: snack_of_remaining_def py_truediv_def bnd_def\<close>)
next
  case (FloatN a)
  then have a: "a \<noteq> NaN" using assms by simp
  obtain q where q: "fdiv a (Fin 2) = Inr q" "q \<noteq> NaN"
    using fdiv_not_nan [OF a, of 2] by auto
  have "py_truediv r (IntN 2) = Inr (FloatN q)"
    using FloatN by (simp add: py_truediv_def to_float_def bnd_def float_of_int_2 q del: fdiv.simps)
  then show ?thesis
    using div_then_round_no_value_error [OF q(2), of msg]
    by (simp add: snack_of_remaining_def bnd_def)
qed

lemma py_sub_int_not_nan:
  assumes "t \<noteq> FloatN NaN" "py_sub t (IntN s) = Inr r"
  shows "r \<noteq> FloatN NaN"
proof (cases t)
  case (IntN n)
  then show ?thesis using assms(2) by (auto simp: py_sub_def)
next
  case (FloatN a)
  then have a: "a \<noteq> NaN" using assms(1) by simp
  show ?thesis
    using assms(2) FloatN float_of_int_cases [of s] fsub_not_nan [OF a]
    by (auto simp: py_sub_def to_float_def bnd_def)
qed

lemma split_calories_no_value_error:
  assumes t: "t \<noteq> FloatN NaN" and pos: "\<not> py_le_zero t"
    and mf: "mf = PyStr ''3 meals'' \<or> mf = PyStr ''3 meals + 2 snacks''"
  shows "split_calories (PyNum t) mf \<noteq> Inl (ValueError msg)"
proof -
  have nb: "round_to_10 t breakfast_pct \<noteq> Inl (ValueError msg)"
    unfolding breakfast_pct_val by (rule round_to_10_no_value_error [OF t]) simp
  have nl: "round_to_10 t lunch_pct \<noteq> Inl (ValueError msg)"
    unfolding lunch_pct_val by (rule round_to_10_no_value_error [OF t]) simp
  have nd: "round_to_10 t dinner_pct \<noteq> Inl (ValueError msg)"
    unfolding dinner_pct_val by (rule round_to_10_no_value_error [OF t]) simp
  have ns: "\<And>s r. py_sub t (IntN s) = Inr r \<Longrightarrow> snack_of_remaining r \<noteq> Inl (ValueError msg)"
    using py_sub_int_not_nan [OF t] snack_of_remaining_no_value_error by blast
  have nsub: "py_sub t (IntN s) \<noteq> Inl (ValueError msg)" for s
  proof (cases t)
    case (IntN n)
    then show ?thesis by (simp add: py_sub_def)
  next
    case (FloatN a)
    then show ?thesis
      using float_of_int_cases [of s] by (auto simp: py_sub_def to_float_def bnd_def)
  qed
  show ?thesis
    using pos mf nb nl nd ns nsub
    by (auto simp: split_calories_def bnd_def Let_def split: sum.splits)
qed

lemma split_calories_nan:
  assumes "mf = PyStr ''3 meals'' \<or> mf = PyStr ''3 meals + 2 snacks''"
  shows "split_calories (PyNum (FloatN NaN)) mf
           = Inl (ValueError ''cannot convert float NaN to integer'')"
  using assms
  by (auto simp: split_calories_def round_to_10_def py_mul_def py_truediv_def py_round_def
      py_le_zero_def to_float_def bnd_def float_of_int_10 breakfast_pct_val)

subsection \<open>The residual split into two snacks\<close>

lemma snack_of_remaining_int:
  assumes R: "\<bar>R\<bar> < 2 ^ 53"
  shows "\<exists>s. snack_of_remaining (IntN R) = Inr (s * 10) \<and> \<bar>2 * (s * 10) - R\<bar> \<le> 11"
proof (cases "R = 0")
  case True
  have "round_double 0 = Fin 0" by (simp add: round_double_def)
  then have "snack_of_remaining (IntN R) = Inr (0 * 10)"
    using True
    by (simp add: snack_of_remaining_def py_truediv_def py_round_def to_float_def bnd_def
        float_of_int_10)
  then show ?thesis using True by (intro exI [of _ 0]) simp
next
  case False
  define h :: rat where "h = of_int R / 2"
  have h: "round_double h = Fin h"
    using round_double_exact [of h R "- 1"] R by (simp add: h_def pow2_def)
  have R1: "(1::rat) \<le> \<bar>of_int R\<bar>" using False by (simp flip: of_int_abs)
  have R2: "\<bar>(of_int R :: rat)\<bar> < 2 ^ 53" using R by (simp flip: of_int_abs of_int_less_iff)
  have "pow2 (- 1022) \<le> \<bar>h / 10\<bar>"
  proof -
    have "pow2 (- 1022) \<le> pow2 (- 5)" by simp
    also have "pow2 (- 5) = 1 / 32" by (simp add: pow2_def)
    also have "\<dots> \<le> \<bar>h / 10\<bar>" using R1 by (simp add: h_def)
    finally show ?thesis .
  qed
  moreover have "\<bar>h / 10\<bar> < pow2 1023" using R2 pow2_53_le_1023 by (simp add: h_def)
  ultimately obtain w where w: "round_double (h / 10) = Fin w"
    and we: "\<bar>w - h / 10\<bar> \<le> \<bar>h / 10\<bar> / 2 ^ 53"
    using round_double_error [of "h / 10"] by blast
  have "\<bar>h / 10\<bar> / 2 ^ 53 = (\<bar>of_int R\<bar> / 2 ^ 53) / 20" by (simp add: h_def)
  also have "\<dots> \<le> 1 / 20" using R2 by simp
  finally have we': "\<bar>w - h / 10\<bar> \<le> 1 / 20" using we by simp
  define s where "s = round_half_even w"
  have se: "\<bar>of_int s - w\<bar> \<le> 1 / 2" unfolding s_def by (rule round_half_even_bounds)
  have ev: "snack_of_remaining (IntN R) = Inr (s * 10)"
    by (simp add: snack_of_remaining_def py_truediv_def py_round_def to_float_def bnd_def
        float_of_int_10 h_def [symmetric] h w s_def)
  have hh: "h / 10 = of_int R / 20" by (simp add: h_def)
  have "\<bar>20 * (of_int s :: rat) - of_int R\<bar> \<le> 11"
    using se we' unfolding hh by linarith
  then have "\<bar>(of_int (2 * (s * 10) - R) :: rat)\<bar> \<le> of_int 11" by simp
  then have "\<bar>2 * (s * 10) - R\<bar> \<le> 11"
    by (simp only: of_int_abs [symmetric] of_int_le_iff)
  then show ?thesis using ev by blast
qed

lemma split_calories_snacks_equal:
  assumes "split_calories tc (PyStr ''3 meals + 2 snacks'') = Inr slots"
  shows "\<exists>s. map_of slots ''snack_1'' = Some s \<and> map_of slots ''snack_2'' = Some s"
  using assms
  by (auto simp: split_calories_def bnd_def Let_def split: pyval.splits sum.splits if_splits)

lemma split_calories_multiples_of_10:
  assumes "split_calories tc mf = Inr slots"
  shows "list_all (\<lambda>(k, v). 10 dvd v) slots"
  using assms
  by (auto simp: split_calories_def round_to_10_def snack_of_remaining_def bnd_def Let_def
      split: pyval.splits sum.splits if_splits)

subsection \<open>The claims about the calorie split\<close>

text \<open>
  C2, as stated, fails: with cadence "3 meals" the three shares are 27.5%, 32.5% and
  27.5% of the total, so they sum to about 87.5% of it. For the total 2000 the meals are
  550, 650 and 550, and their sum 1750 is 250 kcal away from the total.
\<close>

theorem split_calories_three_meals_sum_counterexample:
  "split_calories (PyNum (IntN 2000)) (PyStr ''3 meals'') = Inr [(''breakfast'', 550), (''lunch'', 650), (''dinner'', 550)]
   \<and> \<not> \<bar>(550 + 650 + 550) - (2000::int)\<bar> \<le> 20"
  by (simp add: split_calories_def round_to_10_def snack_of_remaining_def py_mul_def py_sub_def
      py_truediv_def py_round_def py_le_zero_def to_float_def float_of_int_def bnd_def
      breakfast_pct_def lunch_pct_def dinner_pct_def
      sc_rd1 sc_rd2 sc_rd3 sc_rd4 sc_rd5 sc_rd6 sc_rd7 sc_rd8 sc_rd9 sc_rd10 sc_rd11 sc_rd12
      sc_rd13 sc_rd14 sc_rd15 sc_rd16 sc_rd17 sc_rd18 sc_rd19 sc_rd20 sc_rd21 sc_rd22 sc_rd23
      sc_rd24 sc_rd25 sc_rd26 sc_rd27 sc_rd28 sc_rd29 sc_rd30 sc_rd31 sc_rd32 sc_rd33 sc_rd34
      sc_rd35 sc_rd36 sc_rd37 sc_rd38 sc_rd39 sc_rd40 sc_rd41 sc_rd42 sc_rd43 sc_rd44 sc_rd45
      sc_rd46 sc_rd47 sc_rd48 sc_rhe1 sc_rhe2 sc_rhe3 sc_rhe4 sc_rhe5 sc_rhe6 sc_rhe7 sc_rhe8
      sc_rhe9 sc_rhe10)

text \<open>
  C2, amended: whenever the split returns, every slot value is a multiple of 10; and for
  every integer total \<open>0 < T < 2^53\<close> with cadence "3 meals" it returns the three meals,
  whose sum is within 20 kcal of 87.5% of \<open>T\<close> (stated in integers:
  \<open>|8 * sum - 7 * T| \<le> 160\<close>).
\<close>

theorem split_calories_three_meals:
  "(\<forall>tc mf slots. split_calories tc mf = Inr slots \<longrightarrow> list_all (\<lambda>(k, v). 10 dvd v) slots)
   \<and> (\<forall>T. 0 < T \<and> T < 2 ^ 53 \<longrightarrow>
        (\<exists>b l d. split_calories (PyNum (IntN T)) (PyStr ''3 meals'')
                   = Inr [(''breakfast'', b), (''lunch'', l), (''dinner'', d)]
             \<and> 10 dvd b \<and> 10 dvd l \<and> 10 dvd d
             \<and> \<bar>8 * (b + l + d) - 7 * T\<bar> \<le> 160))"
proof (intro conjI allI impI)
  fix tc mf slots
  assume "split_calories tc mf = Inr slots"
  then show "list_all (\<lambda>(k, v). 10 dvd v) slots" by (rule split_calories_multiples_of_10)
next
  fix T :: int
  assume "0 < T \<and> T < 2 ^ 53"
  then have T: "0 < T" "T < 2 ^ 53" by auto
  obtain b l d where m: "round_to_10 (IntN T) breakfast_pct = Inr b"
      "round_to_10 (IntN T) lunch_pct = Inr l" "round_to_10 (IntN T) dinner_pct = Inr d"
      "10 dvd b" "10 dvd l" "10 dvd d" "\<bar>8 * (b + l + d) - 7 * T\<bar> \<le> 160"
    using three_meals_int [OF T] by blast
  have "split_calories (PyNum (IntN T)) (PyStr ''3 meals'')
          = Inr [(''breakfast'', b), (''lunch'', l), (''dinner'', d)]"
    using T(1) m(1-3) by (simp add: split_calories_def py_le_zero_def bnd_def)
  then show "\<exists>b l d. split_calories (PyNum (IntN T)) (PyStr ''3 meals'')
                   = Inr [(''breakfast'', b), (''lunch'', l), (''dinner'', d)]
             \<and> 10 dvd b \<and> 10 dvd l \<and> 10 dvd d
             \<and> \<bar>8 * (b + l + d) - 7 * T\<bar> \<le> 160"
    using m(4-7) by blast
qed

theorem split_calories_three_meals_witness:
  "\<exists>b l d. split_calories (PyNum (IntN 2000)) (PyStr ''3 meals'')
              = Inr [(''breakfast'', b), (''lunch'', l), (''dinner'', d)]
        \<and> list_all (\<lambda>(k, v). 10 dvd v) [(''breakfast'', b), (''lunch'', l), (''dinner'', d)]
        \<and> \<bar>8 * (b + l + d) - 7 * 2000\<bar> \<le> 160"
proof -
  have "(0::int) < 2000 \<and> (2000::int) < 2 ^ 53" by simp
  then obtain b l d where r: "split_calories (PyNum (IntN 2000)) (PyStr ''3 meals'')
        = Inr [(''breakfast'', b), (''lunch'', l), (''dinner'', d)]"
      "\<bar>8 * (b + l + d) - 7 * 2000\<bar> \<le> 160"
    using split_calories_three_meals by blast
  have "list_all (\<lambda>(k, v). 10 dvd v) [(''breakfast'', b), (''lunch'', l), (''dinner'', d)]"
    using split_calories_three_meals r(1) by blast
  then show ?thesis using r by blast
qed

text \<open>
  C4, as stated, fails for totals beyond the precision of a double: for the total
  \<open>10^25\<close> with cadence "3 meals + 2 snacks" the five slots sum to a value that is
  167772160 kcal away from the total.
\<close>

theorem split_calories_five_slots_sum_counterexample:
  "split_calories (PyNum (IntN 10000000000000000000000000)) (PyStr ''3 meals + 2 snacks'')
     = Inr [(''breakfast'', 2750000000000000692060160), (''lunch'', 3250000000000000482344960), (''dinner'', 2750000000000000692060160), (''snack_1'', 624999999999999150653440), (''snack_2'', 624999999999999150653440)]
   \<and> \<not> \<bar>(2750000000000000692060160 + 3250000000000000482344960 + 2750000000000000692060160 + 624999999999999150653440 + 624999999999999150653440) - (10000000000000000000000000::int)\<bar> \<le> 20"
  by (simp add: split_calories_def round_to_10_def snack_of_remaining_def py_mul_def py_sub_def
      py_truediv_def py_round_def py_le_zero_def to_float_def float_of_int_def bnd_def
      breakfast_pct_def lunch_pct_def dinner_pct_def
      sc_rd1 sc_rd2 sc_rd3 sc_rd4 sc_rd5 sc_rd6 sc_rd7 sc_rd8 sc_rd9 sc_rd10 sc_rd11 sc_rd12
      sc_rd13 sc_rd14 sc_rd15 sc_rd16 sc_rd17 sc_rd18 sc_rd19 sc_rd20 sc_rd21 sc_rd22 sc_rd23
      sc_rd24 sc_rd25 sc_rd26 sc_rd27 sc_rd28 sc_rd29 sc_rd30 sc_rd31 sc_rd32 sc_rd33 sc_rd34
      sc_rd35 sc_rd36 sc_rd37 sc_rd38 sc_rd39 sc_rd40 sc_rd41 sc_rd42 sc_rd43 sc_rd44 sc_rd45
      sc_rd46 sc_rd47 sc_rd48 sc_rhe1 sc_rhe2 sc_rhe3 sc_rhe4 sc_rhe5 sc_rhe6 sc_rhe7 sc_rhe8
      sc_rhe9 sc_rhe10)

text \<open>
  C4, amended: whenever the split returns for cadence "3 meals + 2 snacks", both snack
  slots hold the same value; and for every integer total \<open>0 < T < 2^53\<close> it returns five
  slots whose sum deviates from \<open>T\<close> by at most 20 kcal.
\<close>

theorem split_calories_five_slots:
  "(\<forall>tc slots. split_calories tc (PyStr ''3 meals + 2 snacks'') = Inr slots \<longrightarrow>
        (\<exists>s. map_of slots ''snack_1'' = Some s \<and> map_of slots ''snack_2'' = Some s))
   \<and> (\<forall>T. 0 < T \<and> T < 2 ^ 53 \<longrightarrow>
        (\<exists>b l d s. split_calories (PyNum (IntN T)) (PyStr ''3 meals + 2 snacks'')
                   = Inr [(''breakfast'', b), (''lunch'', l), (''dinner'', d),
                          (''snack_1'', s), (''snack_2'', s)]
             \<and> \<bar>(b + l + d + s + s) - T\<bar> \<le> 20))"
proof (intro conjI allI impI)
  fix tc slots
  assume "split_calories tc (PyStr ''3 meals + 2 snacks'') = Inr slots"
  then show "\<exists>s. map_of slots ''snack_1'' = Some s \<and> map_of slots ''snack_2'' = Some s"
    by (rule split_calories_snacks_equal)
next
  fix T :: int
  assume "0 < T \<and> T < 2 ^ 53"
  then have T: "0 < T" "T < 2 ^ 53" by auto
  obtain b l d where m: "round_to_10 (IntN T) breakfast_pct = Inr b"
      "round_to_10 (IntN T) lunch_pct = Inr l" "round_to_10 (IntN T) dinner_pct = Inr d"
      "\<bar>8 * (b + l + d) - 7 * T\<bar> \<le> 160"
    using three_meals_int [OF T] by blast
  define R where "R = T - (b + l + d)"
  have "\<bar>R\<bar> < 2 ^ 53" using m(4) T unfolding R_def by simp
  then obtain s where s: "snack_of_remaining (IntN R) = Inr (s * 10)"
      "\<bar>2 * (s * 10) - R\<bar> \<le> 11"
    using snack_of_remaining_int by blast
  have "split_calories (PyNum (IntN T)) (PyStr ''3 meals + 2 snacks'')
          = Inr [(''breakfast'', b), (''lunch'', l), (''dinner'', d),
                 (''snack_1'', s * 10), (''snack_2'', s * 10)]"
    using T(1) m(1-3) s(1)
    by (simp add: split_calories_def py_le_zero_def py_sub_def bnd_def R_def)
  moreover have "\<bar>(b + l + d + s * 10 + s * 10) - T\<bar> \<le> 20"
    using s(2) unfolding R_def by simp
  ultimately show "\<exists>b l d s. split_calories (PyNum (IntN T)) (PyStr ''3 meals + 2 snacks'')
                   = Inr [(''breakfast'', b), (''lunch'', l), (''dinner'', d),
                          (''snack_1'', s), (''snack_2'', s)]
             \<and> \<bar>(b + l + d + s + s) - T\<bar> \<le> 20"
    by blast
qed

theorem split_calories_five_slots_witness:
  "\<exists>b l d s. split_calories (PyNum (IntN 1883)) (PyStr ''3 meals + 2 snacks'')
              = Inr [(''breakfast'', b), (''lunch'', l), (''dinner'', d),
                     (''snack_1'', s), (''snack_2'', s)]
        \<and> \<bar>(b + l + d + s + s) - 1883\<bar> \<le> 20"
proof -
  have "(0::int) < 1883 \<and> (1883::int) < 2 ^ 53" by simp
  then show ?thesis using split_calories_five_slots by blast
qed

text \<open>
  C5: the split raises \<open>ValueError\<close> exactly when the total is not a positive number
  (not an int or float, not greater than zero, or a NaN) or the cadence is not one of the
  two recognised strings. Both guards come first in the function, and an error is a value
  on the left of the sum, which carries no slot mapping; for a NaN the guards pass and the
  first \<open>round\<close> raises before any slot is assigned.
\<close>

theorem split_calories_value_error_iff:
  "(\<exists>msg. split_calories total_calories meal_frequency = Inl (ValueError msg)) \<longleftrightarrow>
     \<not> ((\<exists>n. total_calories = PyNum (IntN n) \<and> 0 < n)
        \<or> (\<exists>x. total_calories = PyNum (FloatN (Fin x)) \<and> 0 < x)
        \<or> total_calories = PyNum (FloatN PInf))
     \<or> meal_frequency \<notin> {PyStr ''3 meals'', PyStr ''3 meals + 2 snacks''}"
proof (cases "meal_frequency \<in> {PyStr ''3 meals'', PyStr ''3 meals + 2 snacks''}")
  case False
  then show ?thesis
    by (auto simp: split_calories_def split: pyval.splits)
next
  case True
  then have mf: "meal_frequency = PyStr ''3 meals'' \<or> meal_frequency = PyStr ''3 meals + 2 snacks''"
    by simp
  show ?thesis
  proof (cases total_calories)
    case (PyNum t)
    show ?thesis
    proof (cases "t = FloatN NaN")
      case nan: True
      then show ?thesis using PyNum split_calories_nan [OF mf] True by simp
    next
      case notnan: False
      show ?thesis
      proof (cases "py_le_zero t")
        case le: True
        then have "split_calories total_calories meal_frequency
            = Inl (ValueError ''Total calories must be a positive number'')"
          using PyNum by (simp add: split_calories_def)
        moreover have "\<not> ((\<exists>n. total_calories = PyNum (IntN n) \<and> 0 < n)
            \<or> (\<exists>x. total_calories = PyNum (FloatN (Fin x)) \<and> 0 < x)
            \<or> total_calories = PyNum (FloatN PInf))"
          using le PyNum by (auto simp: py_le_zero_def)
        ultimately show ?thesis by simp
      next
        case pos: False
        have "\<And>msg. split_calories total_calories meal_frequency \<noteq> Inl (ValueError msg)"
          unfolding PyNum using notnan pos mf by (rule split_calories_no_value_error)
        moreover have "(\<exists>n. total_calories = PyNum (IntN n) \<and> 0 < n)
            \<or> (\<exists>x. total_calories = PyNum (FloatN (Fin x)) \<and> 0 < x)
            \<or> total_calories = PyNum (FloatN PInf)"
          using pos notnan PyNum
          by (cases t) (auto simp: py_le_zero_def split: pyfloat.splits)
        ultimately show ?thesis using True by simp
      qed
    qed
  qed (simp_all add: split_calories_def)
qed

theorem split_calories_value_error_iff_witness:
  "(\<exists>msg. split_calories (PyNum (IntN 0)) (PyStr ''3 meals'') = Inl (ValueError msg))
   \<and> (\<exists>msg. split_calories (PyNum (IntN 1883)) (PyStr ''2 meals'') = Inl (ValueError msg))
   \<and> (\<exists>msg. split_calories (PyStr ''1883'') (PyStr ''3 meals'') = Inl (ValueError msg))
   \<and> \<not> (\<exists>msg. split_calories (PyNum (IntN 1883)) (PyStr ''3 meals'') = Inl (ValueError msg))"
  using split_calories_value_error_iff [of "PyNum (IntN 0)" "PyStr ''3 meals''"]
    split_calories_value_error_iff [of "PyNum (IntN 1883)" "PyStr ''2 meals''"]
    split_calories_value_error_iff [of "PyStr ''1883''" "PyStr ''3 meals''"]
    split_calories_value_error_iff [of "PyNum (IntN 1883)" "PyStr ''3 meals''"]
  by simp

text \<open>
  C10: the split does not keep slot values non-negative. For the total 19 with cadence
  "3 meals + 2 snacks" the three meals round up to 10 each, the residual is -11, and
  both snack slots receive -10.
\<close>

theorem split_calories_negative_snacks:
  "split_calories (PyNum (IntN 19)) (PyStr ''3 meals + 2 snacks'') =
     Inr [(''breakfast'', 10), (''lunch'', 10), (''dinner'', 10), (''snack_1'', - 10), (''snack_2'', - 10)]"
  by (simp add: split_calories_def round_to_10_def snack_of_remaining_def py_mul_def py_sub_def
      py_truediv_def py_round_def py_le_zero_def to_float_def float_of_int_def bnd_def
      breakfast_pct_def lunch_pct_def dinner_pct_def
      sc_rd1 sc_rd2 sc_rd3 sc_rd4 sc_rd5 sc_rd6 sc_rd7 sc_rd8 sc_rd9 sc_rd10 sc_rd11 sc_rd12
      sc_rd13 sc_rd14 sc_rd15 sc_rd16 sc_rd17 sc_rd18 sc_rd19 sc_rd20 sc_rd21 sc_rd22 sc_rd23
      sc_rd24 sc_rd25 sc_rd26 sc_rd27 sc_rd28 sc_rd29 sc_rd30 sc_rd31 sc_rd32 sc_rd33 sc_rd34
      sc_rd35 sc_rd36 sc_rd37 sc_rd38 sc_rd39 sc_rd40 sc_rd41 sc_rd42 sc_rd43 sc_rd44 sc_rd45
      sc_rd46 sc_rd47 sc_rd48 sc_rhe1 sc_rhe2 sc_rhe3 sc_rhe4 sc_rhe5 sc_rhe6 sc_rhe7 sc_rhe8
      sc_rhe9 sc_rhe10)

section \<open>The end-to-end scenario\<close>

text \<open>
  C3, as stated, fails. For the user of 70 kg, 175 cm, 30 years, Male, sedentary and
  Maintenance the basal rate is \<open>10*70 + 6.25*175 - 5*30 + 5 = 1648.75\<close>, times 1.2 is
  1978.5, which rounds (ties to even) to 1978, not 1883. And the split of 1883 itself with
  two snacks gives snacks of 120, not 115 (every slot is a multiple of 10).
\<close>

theorem caloric_target_scenario_counterexample:
  "adjusted_calories (Fin 70) 175 30 ''Male'' ''sedentary'' ''Maintenance'' = Inr 1978
   \<and> (1978::int) \<noteq> 1883
   \<and> split_calories (PyNum (IntN 1883)) (PyStr ''3 meals + 2 snacks'') = Inr [(''breakfast'', 520), (''lunch'', 610), (''dinner'', 520), (''snack_1'', 120), (''snack_2'', 120)]
   \<and> (120::int) \<noteq> 115"
  by (simp add: adjusted_calories_def calculate_bmr_def get_activity_factor_def goal_adjustments_def
      lit_def py_mul_def py_add_def py_sub_def py_round_def py_int_def fsub_def to_float_def
      float_of_int_def bnd_def get_or_def py_lower_def lower_char_def
      split_calories_def round_to_10_def snack_of_remaining_def py_mul_def py_sub_def
      py_truediv_def py_round_def py_le_zero_def to_float_def float_of_int_def bnd_def
      breakfast_pct_def lunch_pct_def dinner_pct_def
      sc_rd1 sc_rd2 sc_rd3 sc_rd4 sc_rd5 sc_rd6 sc_rd7 sc_rd8 sc_rd9 sc_rd10 sc_rd11 sc_rd12
      sc_rd13 sc_rd14 sc_rd15 sc_rd16 sc_rd17 sc_rd18 sc_rd19 sc_rd20 sc_rd21 sc_rd22 sc_rd23
      sc_rd24 sc_rd25 sc_rd26 sc_rd27 sc_rd28 sc_rd29 sc_rd30 sc_rd31 sc_rd32 sc_rd33 sc_rd34
      sc_rd35 sc_rd36 sc_rd37 sc_rd38 sc_rd39 sc_rd40 sc_rd41 sc_rd42 sc_rd43 sc_rd44 sc_rd45
      sc_rd46 sc_rd47 sc_rd48 sc_rhe1 sc_rhe2 sc_rhe3 sc_rhe4 sc_rhe5 sc_rhe6 sc_rhe7 sc_rhe8
      sc_rhe9 sc_rhe10)

text \<open>
  C3, amended: for that user the caloric target is 1978 kcal, and the split of 1978 with
  cadence "3 meals + 2 snacks" is breakfast 540, lunch 640, dinner 540 and two snacks of
  130.
\<close>

theorem caloric_target_scenario:
  "adjusted_calories (Fin 70) 175 30 ''Male'' ''sedentary'' ''Maintenance'' = Inr 1978
   \<and> split_calories (PyNum (IntN 1978)) (PyStr ''3 meals + 2 snacks'') = Inr [(''breakfast'', 540), (''lunch'', 640), (''dinner'', 540), (''snack_1'', 130), (''snack_2'', 130)]"
  by (simp add: adjusted_calories_def calculate_bmr_def get_activity_factor_def goal_adjustments_def
      lit_def py_mul_def py_add_def py_sub_def py_round_def py_int_def fsub_def to_float_def
      float_of_int_def bnd_def get_or_def py_lower_def lower_char_def
      split_calories_def round_to_10_def snack_of_remaining_def py_mul_def py_sub_def
      py_truediv_def py_round_def py_le_zero_def to_float_def float_of_int_def bnd_def
      breakfast_pct_def lunch_pct_def dinner_pct_def
      sc_rd1 sc_rd2 sc_rd3 sc_rd4 sc_rd5 sc_rd6 sc_rd7 sc_rd8 sc_rd9 sc_rd10 sc_rd11 sc_rd12
      sc_rd13 sc_rd14 sc_rd15 sc_rd16 sc_rd17 sc_rd18 sc_rd19 sc_rd20 sc_rd21 sc_rd22 sc_rd23
      sc_rd24 sc_rd25 sc_rd26 sc_rd27 sc_rd28 sc_rd29 sc_rd30 sc_rd31 sc_rd32 sc_rd33 sc_rd34
      sc_rd35 sc_rd36 sc_rd37 sc_rd38 sc_rd39 sc_rd40 sc_rd41 sc_rd42 sc_rd43 sc_rd44 sc_rd45
      sc_rd46 sc_rd47 sc_rd48 sc_rhe1 sc_rhe2 sc_rhe3 sc_rhe4 sc_rhe5 sc_rhe6 sc_rhe7 sc_rhe8
      sc_rhe9 sc_rhe10)

section \<open>Properties of the dish filter\<close>

subsection \<open>The two allergen sets\<close>

lemma set_user_allergies:
  "set (user_allergies u) =
     {py_lower (py_strip s) | s. PyStr s \<in> set (get_or [] (known_allergies u)) \<and> py_strip s \<noteq> []}"
  by (auto simp: user_allergies_def split: pyval.splits if_splits)

lemma set_dish_allergens:
  "set (dish_allergens d) = py_lower ` set (get_or [] (allergy_risks d))"
  by (simp add: dish_allergens_def)

lemma distinct_user_allergies [simp]: "distinct (user_allergies u)"
  by (simp add: user_allergies_def)

lemma has_allergy_conflict_iff:
  "has_allergy_conflict d u \<longleftrightarrow> set (user_allergies u) \<inter> set (dish_allergens d) \<noteq> {}"
  by (auto simp: has_allergy_conflict_def filter_empty_conv)

subsection \<open>The claims about constraint filtering and selection\<close>

text \<open>
  C1, as stated, fails on blank entries: the user's allergy set leaves out entries that
  are blank after stripping. A dish whose only allergen tag is the empty string is kept
  for a user whose only allergy entry is a single space, although the stripped,
  lower-cased entry equals the lower-cased tag.
\<close>

theorem filter_keeps_blank_allergen_counterexample:
  "filter_dishes_by_constraints [blank_dish\<lparr>allergy_risks := Some ['''']\<rparr>]
       (blank_user\<lparr>known_allergies := Some [PyStr '' '']\<rparr>)
     = [blank_dish\<lparr>allergy_risks := Some ['''']\<rparr>]
   \<and> py_lower (py_strip '' '')
       \<in> py_lower ` set (get_or [] (allergy_risks (blank_dish\<lparr>allergy_risks := Some ['''']\<rparr>)))"
  by (simp add: filter_dishes_by_constraints_def keeps_dish_def has_allergy_conflict_def
      has_dietary_conflict_def user_allergies_def dish_allergens_def blank_dish_def
      blank_user_def get_or_def py_lower_def py_strip_def is_space_def)

text \<open>
  C1, amended: for every catalogue and every user profile, no dish returned by the
  constraint filter has an allergen tag that equals, ignoring case, a string entry of the
  user's \<open>known_allergies\<close> that is stripped and not blank.
\<close>

theorem filter_dishes_no_allergy_conflict:
  "\<forall>d \<in> set (filter_dishes_by_constraints dishes u).
     \<not> (\<exists>a \<in> set (get_or [] (allergy_risks d)).
          \<exists>s. PyStr s \<in> set (get_or [] (known_allergies u))
             \<and> py_strip s \<noteq> [] \<and> py_lower (py_strip s) = py_lower a)"
proof
  fix d
  assume "d \<in> set (filter_dishes_by_constraints dishes u)"
  then have "keeps_dish u d" by (simp add: filter_dishes_by_constraints_def)
  then have "\<not> has_allergy_conflict d u" by (auto simp: keeps_dish_def split: if_splits)
  then have e: "set (user_allergies u) \<inter> set (dish_allergens d) = {}"
    by (simp add: has_allergy_conflict_iff)
  show "\<not> (\<exists>a \<in> set (get_or [] (allergy_risks d)).
          \<exists>s. PyStr s \<in> set (get_or [] (known_allergies u))
             \<and> py_strip s \<noteq> [] \<and> py_lower (py_strip s) = py_lower a)"
  proof
    assume "\<exists>a \<in> set (get_or [] (allergy_risks d)).
          \<exists>s. PyStr s \<in> set (get_or [] (known_allergies u))
             \<and> py_strip s \<noteq> [] \<and> py_lower (py_strip s) = py_lower a"
    then obtain a s where a: "a \<in> set (get_or [] (allergy_risks d))"
      and s: "PyStr s \<in> set (get_or [] (known_allergies u))" "py_strip s \<noteq> []"
      and eq: "py_lower (py_strip s) = py_lower a"
      by blast
    have "py_lower (py_strip s) \<in> set (user_allergies u)"
      unfolding set_user_allergies using s by blast
    moreover have "py_lower (py_strip s) \<in> set (dish_allergens d)"
      unfolding set_dish_allergens eq using a by blast
    ultimately show False using e by blast
  qed
qed

theorem filter_dishes_no_allergy_conflict_witness:
  "filter_dishes_by_constraints
       [blank_dish\<lparr>allergy_risks := Some [''Nuts'']\<rparr>, blank_dish\<lparr>allergy_risks := Some [''dairy'']\<rparr>]
       (blank_user\<lparr>known_allergies := Some [PyStr '' nuts '', PyNone]\<rparr>)
     = [blank_dish\<lparr>allergy_risks := Some [''dairy'']\<rparr>]
   \<and> \<not> (\<exists>a \<in> set (get_or [] (allergy_risks (blank_dish\<lparr>allergy_risks := Some [''dairy'']\<rparr>))).
          \<exists>s. PyStr s \<in> set (get_or [] (known_allergies
                    (blank_user\<lparr>known_allergies := Some [PyStr '' nuts '', PyNone]\<rparr>)))
             \<and> py_strip s \<noteq> [] \<and> py_lower (py_strip s) = py_lower a)"
proof -
  have r: "filter_dishes_by_constraints
       [blank_dish\<lparr>allergy_risks := Some [''Nuts'']\<rparr>, blank_dish\<lparr>allergy_risks := Some [''dairy'']\<rparr>]
       (blank_user\<lparr>known_allergies := Some [PyStr '' nuts '', PyNone]\<rparr>)
     = [blank_dish\<lparr>allergy_risks := Some [''dairy'']\<rparr>]"
    by (simp add: filter_dishes_by_constraints_def keeps_dish_def has_allergy_conflict_def
        has_dietary_conflict_def user_allergies_def dish_allergens_def blank_dish_def
        blank_user_def get_or_def py_lower_def lower_char_def py_strip_def is_space_def)
  show ?thesis
    using filter_dishes_no_allergy_conflict
      [of "[blank_dish\<lparr>allergy_risks := Some [''Nuts'']\<rparr>, blank_dish\<lparr>allergy_risks := Some [''dairy'']\<rparr>]"
          "blank_user\<lparr>known_allergies := Some [PyStr '' nuts '', PyNone]\<rparr>"]
    unfolding r by simp
qed

text \<open>
  C9: when there is no candidate (an empty catalogue, no dish of the requested meal type,
  or every dish removed by the constraint filter) both selection functions return
  \<open>None\<close> and raise nothing, whatever index the random generator would draw.
\<close>

theorem no_candidates_no_dish:
  "get_optimal_dish r [] u mt target_calories target_protein n = Inr None
   \<and> find_best_dish r [] u top_n = Inr None
   \<and> (filter (\<lambda>d. py_lower (get_or [] (meal_type d)) = py_lower mt) dishes = []
        \<longrightarrow> get_optimal_dish r dishes u mt target_calories target_protein n = Inr None)
   \<and> (filter_dishes_by_constraints
          (filter (\<lambda>d. py_lower (get_or [] (meal_type d)) = py_lower mt) dishes) u = []
        \<longrightarrow> get_optimal_dish r dishes u mt target_calories target_protein n = Inr None)
   \<and> (filter_dishes_by_constraints dishes u = []
        \<longrightarrow> find_best_dish r dishes u top_n = Inr None)"
  by (simp add: get_optimal_dish_def get_best_dishes_by_meal_type_def find_best_dish_def
      filter_dishes_by_constraints_def bnd_def Let_def)

theorem no_candidates_no_dish_witness:
  "get_optimal_dish 7 [blank_dish\<lparr>meal_type := Some ''Lunch''\<rparr>] blank_user ''breakfast''
       (Some 500) (Some (Fin 20)) 3 = Inr None
   \<and> get_optimal_dish 7 [blank_dish\<lparr>meal_type := Some ''Lunch'', allergy_risks := Some [''Nuts'']\<rparr>]
       (blank_user\<lparr>known_allergies := Some [PyStr ''nuts'']\<rparr>) ''lunch''
       (Some 500) (Some (Fin 20)) 3 = Inr None
   \<and> find_best_dish 7 [blank_dish\<lparr>allergy_risks := Some [''Nuts'']\<rparr>]
       (blank_user\<lparr>known_allergies := Some [PyStr ''nuts'']\<rparr>) 5 = Inr None"
proof -
  have a: "filter (\<lambda>d. py_lower (get_or [] (meal_type d)) = py_lower ''breakfast'')
             [blank_dish\<lparr>meal_type := Some ''Lunch''\<rparr>] = []"
    by (simp add: blank_dish_def get_or_def py_lower_def lower_char_def)
  have b: "filter_dishes_by_constraints
             (filter (\<lambda>d. py_lower (get_or [] (meal_type d)) = py_lower ''lunch'')
                [blank_dish\<lparr>meal_type := Some ''Lunch'', allergy_risks := Some [''Nuts'']\<rparr>])
             (blank_user\<lparr>known_allergies := Some [PyStr ''nuts'']\<rparr>) = []"
    by (simp add: filter_dishes_by_constraints_def keeps_dish_def has_allergy_conflict_def
        user_allergies_def dish_allergens_def blank_dish_def blank_user_def get_or_def
        py_lower_def lower_char_def py_strip_def is_space_def)
  have c: "filter_dishes_by_constraints [blank_dish\<lparr>allergy_risks := Some [''Nuts'']\<rparr>]
             (blank_user\<lparr>known_allergies := Some [PyStr ''nuts'']\<rparr>) = []"
    by (simp add: filter_dishes_by_constraints_def keeps_dish_def has_allergy_conflict_def
        user_allergies_def dish_allergens_def blank_dish_def blank_user_def get_or_def
        py_lower_def lower_char_def py_strip_def is_space_def)
  show ?thesis
    using no_candidates_no_dish
        [of 7 blank_user "''breakfast''" "Some 500" "Some (Fin 20)" 3 5
            "[blank_dish\<lparr>meal_type := Some ''Lunch''\<rparr>]"]
      no_candidates_no_dish
        [of 7 "blank_user\<lparr>known_allergies := Some [PyStr ''nuts'']\<rparr>" "''lunch''" "Some 500"
            "Some (Fin 20)" 3 5
            "[blank_dish\<lparr>meal_type := Some ''Lunch'', allergy_risks := Some [''Nuts'']\<rparr>]"]
      no_candidates_no_dish
        [of 7 "blank_user\<lparr>known_allergies := Some [PyStr ''nuts'']\<rparr>" "''lunch''" "Some 500"
            "Some (Fin 20)" 3 5 "[blank_dish\<lparr>allergy_risks := Some [''Nuts'']\<rparr>]"]
      a b c
    by simp
qed

section \<open>Properties of the score\<close>

subsection \<open>Float literals and exact products\<close>

lemma lit_1 [simp]: "lit 1 = Fin 1"
  using round_double_of_int [of 1] by (simp add: lit_def)

lemma lit_2 [simp]: "lit 2 = Fin 2"
  using round_double_of_int [of 2] by (simp add: lit_def)

lemma lit_10 [simp]: "lit 10 = Fin 10"
  using round_double_of_int [of 10] by (simp add: lit_def)

lemma lit_half [simp]: "lit (1 / 2) = Fin (1 / 2)"
  using round_double_exact [of "1 / 2" 1 "- 1"] by (simp add: lit_def pow2_def)

lemma lit_3_2 [simp]: "lit (3 / 2) = Fin (3 / 2)"
  using round_double_exact [of "3 / 2" 3 "- 1"] by (simp add: lit_def pow2_def)

text \<open>The band limits 0.8, 1.2, 0.6, 1.4, 0.4 and 1.6 as doubles.\<close>

lemma band_rd1: "round_double (4 / 5) = Fin (3602879701896397 / 4503599627370496)"
  by (rule round_double_evalI [where k = "- 1" and n = "7205759403792794"]) (simp_all add: pow2_def)

lemma band_rd2: "round_double (6 / 5) = Fin (5404319552844595 / 4503599627370496)"
  by (rule round_double_evalI [where k = "0" and n = "5404319552844595"]) (simp_all add: pow2_def)

lemma band_rd3: "round_double (3 / 5) = Fin (5404319552844595 / 9007199254740992)"
  by (rule round_double_evalI [where k = "- 1" and n = "5404319552844595"]) (simp_all add: pow2_def)

lemma band_rd4: "round_double (7 / 5) = Fin (3152519739159347 / 2251799813685248)"
  by (rule round_double_evalI [where k = "0" and n = "6305039478318694"]) (simp_all add: pow2_def)

lemma band_rd5: "round_double (2 / 5) = Fin (3602879701896397 / 9007199254740992)"
  by (rule round_double_evalI [where k = "- 2" and n = "7205759403792794"]) (simp_all add: pow2_def)

lemma band_rd6: "round_double (8 / 5) = Fin (3602879701896397 / 2251799813685248)"
  by (rule round_double_evalI [where k = "0" and n = "7205759403792794"]) (simp_all add: pow2_def)


lemma round_double_halves:
  assumes "n < 2 ^ 53"
  shows "round_double (of_nat n / 2) = Fin (of_nat n / 2)"
    and "round_double (of_nat n / 4) = Fin (of_nat n / 4)"
proof -
  have n: "\<bar>int n\<bar> < 2 ^ 53" using assms by (simp flip: of_nat_less_iff)
  show "round_double (of_nat n / 2) = Fin (of_nat n / 2)"
    using round_double_exact [of "of_nat n / 2" "int n" "- 1"] n by (simp add: pow2_def)
  show "round_double (of_nat n / 4) = Fin (of_nat n / 4)"
    using round_double_exact [of "of_nat n / 4" "int n" "- 2"] n by (simp add: pow2_def)
qed

subsection \<open>The allergy factor\<close>



subsection \<open>The meal-timing factor\<close>

text \<open>\<open>sub in s\<close> holds exactly when \<open>sub\<close> is a contiguous piece of \<open>s\<close>.\<close>

lemma py_in_str_iff: "py_in_str sub s \<longleftrightarrow> (\<exists>p q. s = p @ sub @ q)"
proof (induction s)
  case Nil
  show ?case by simp
next
  case (Cons c s)
  note IH = Cons.IH
  show ?case
  proof
    assume "py_in_str sub (c # s)"
    then consider "take (length sub) (c # s) = sub" | "py_in_str sub s" by auto
    then show "\<exists>p q. c # s = p @ sub @ q"
    proof cases
      case 1
      have "c # s = take (length sub) (c # s) @ drop (length sub) (c # s)"
        by (rule append_take_drop_id [symmetric])
      then have "c # s = [] @ sub @ drop (length sub) (c # s)" unfolding 1 by simp
      then show ?thesis by blast
    next
      case 2
      then obtain p q where "s = p @ sub @ q" using IH by blast
      then have "c # s = (c # p) @ sub @ q" by simp
      then show ?thesis by blast
    qed
  next
    assume "\<exists>p q. c # s = p @ sub @ q"
    then obtain p q where pq: "c # s = p @ sub @ q" by blast
    show "py_in_str sub (c # s)"
    proof (cases p)
      case Nil
      have "take (length sub) (c # s) = sub" unfolding pq Nil by simp
      then show ?thesis by simp
    next
      case (Cons a p')
      then have "s = p' @ sub @ q" using pq by simp
      then have "py_in_str sub s" using IH by blast
      then show ?thesis by simp
    qed
  qed
qed

lemma set_concat_filter:
  "set (concat (map (\<lambda>x. if P x then filter (Q x) ds else []) us))
     = {t \<in> set ds. \<exists>x \<in> set us. P x \<and> Q x t}"
  by auto

lemma meal_type_mapping_keys:
  "fst ` set meal_type_mapping = {''morning'', ''afternoon'', ''evening'', ''night'', ''snacks''}"
  by (simp add: meal_type_mapping_def)

lemma py_mul_int_half:
  assumes "n < 2 ^ 53"
  shows "py_mul (IntN (int n)) (FloatN (Fin (1 / 2))) = Inr (FloatN (Fin (of_nat n / 2)))"
proof -
  have "\<bar>int n\<bar> < 2 ^ 53" using assms by (simp flip: of_nat_less_iff)
  then have "float_of_int (int n) = Inr (Fin (of_int (int n)))" by (rule float_of_int_exact)
  then show ?thesis
    using round_double_halves(1) [OF assms]
    by (simp add: py_mul_def to_float_def bnd_def)
qed

lemma py_mul_float_half:
  assumes "n < 2 ^ 53"
  shows "py_mul (FloatN (Fin (of_nat n / 2))) (FloatN (Fin (1 / 2)))
           = Inr (FloatN (Fin (of_nat n / 4)))"
  using round_double_halves(2) [OF assms]
  by (simp add: py_mul_def to_float_def bnd_def)

lemma add_meal_timing_value:
  assumes "card {t \<in> set (get_or [] (time_of_day_suitability d)).
                   \<exists>time \<in> set (get_or [] (preferred_meal_times u)).
                     py_lower time \<in> {''morning'', ''afternoon'', ''evening'', ''night'', ''snacks''}
                     \<and> (\<exists>p q. py_lower t = p @ py_lower time @ q)} < 2 ^ 53"
  shows "add_meal_timing d u total_score
           = py_add total_score (FloatN (Fin (of_nat (card {t \<in> set (get_or [] (time_of_day_suitability d)).
                   \<exists>time \<in> set (get_or [] (preferred_meal_times u)).
                     py_lower time \<in> {''morning'', ''afternoon'', ''evening'', ''night'', ''snacks''}
                     \<and> (\<exists>p q. py_lower t = p @ py_lower time @ q)}) / 4)))"
proof -
  define ds where "ds = get_or [] (time_of_day_suitability d)"
  define us where "us = get_or [] (preferred_meal_times u)"
  define S where "S = {t \<in> set ds. \<exists>time \<in> set us.
                     py_lower time \<in> {''morning'', ''afternoon'', ''evening'', ''night'', ''snacks''}
                     \<and> (\<exists>p q. py_lower t = p @ py_lower time @ q)}"
  define n where "n = card S"
  have n: "n < 2 ^ 53" using assms unfolding n_def S_def ds_def us_def .
  have empty: "n = 0" if "us = [] \<or> ds = []"
  proof -
    have "S = {}" using that unfolding S_def by auto
    then show ?thesis unfolding n_def by simp
  qed
  have score: "bnd (calculate_meal_timing_score d u) (\<lambda>x. py_mul x (FloatN (Fin (1 / 2))))
                 = Inr (FloatN (Fin (of_nat n / 4)))"
  proof (cases "us = [] \<or> ds = []")
    case True
    then have "calculate_meal_timing_score d u = Inr (IntN (int 0))"
      unfolding us_def ds_def by (simp add: calculate_meal_timing_score_def)
    then show ?thesis
      using py_mul_int_half [of 0] empty [OF True] round_double_of_int [of 0]
      by (simp add: bnd_def py_mul_def to_float_def)
  next
    case False
    let ?xs = "concat (map (\<lambda>time.
                 if py_lower time \<in> fst ` set meal_type_mapping
                 then filter (\<lambda>t. py_in_str (py_lower time) (py_lower t)) ds
                 else []) us)"
    have "set ?xs = S"
      unfolding set_concat_filter meal_type_mapping_keys S_def py_in_str_iff ..
    then have "length (remdups ?xs) = n"
      unfolding n_def by (simp add: length_remdups_card_conv)
    then have "calculate_meal_timing_score d u = py_mul (IntN (int n)) (FloatN (Fin (1 / 2)))"
      using False unfolding us_def ds_def
      by (simp add: calculate_meal_timing_score_def Let_def)
    then show ?thesis
      unfolding py_mul_int_half [OF n] using py_mul_float_half [OF n]
      by (simp add: bnd_def)
  qed
  have "add_meal_timing d u total_score
          = bnd (bnd (calculate_meal_timing_score d u) (\<lambda>x. py_mul x (FloatN (Fin (1 / 2)))))
              (\<lambda>x. py_add total_score x)"
    by (cases "calculate_meal_timing_score d u")
      (simp_all add: add_meal_timing_def add_weighted_def bnd_def)
  then have "add_meal_timing d u total_score
               = py_add total_score (FloatN (Fin (of_nat n / 4)))"
    unfolding score by (simp add: bnd_def)
  then show ?thesis unfolding n_def S_def us_def ds_def .
qed

subsection \<open>The protein factor\<close>

lemma float_of_int_in_range:
  assumes "\<bar>n\<bar> < 2 ^ 1024 - 2 ^ 970"
  shows "\<exists>y. float_of_int n = Inr (Fin y)"
proof (cases "n = 0")
  case True
  then show ?thesis by (simp add: float_of_int_def round_double_def)
next
  case nz: False
  define x :: rat where "x = of_int n"
  have xn: "\<bar>x\<bar> = of_int \<bar>n\<bar>" by (simp add: x_def)
  have x0: "x \<noteq> 0" using nz by (simp add: x_def)
  have "\<exists>y. round_double x = Fin y"
  proof (cases "\<bar>n\<bar> < 2 ^ 1023")
    case True
    have "1 \<le> \<bar>n\<bar>" using nz by simp
    then have one: "(1 :: rat) \<le> \<bar>x\<bar>" unfolding xn by (simp only: of_int_1_le_iff)
    have "pow2 (- 1022) \<le> pow2 0" by simp
    also have "pow2 0 = 1" by (simp add: pow2_def)
    finally have lo: "pow2 (- 1022) \<le> \<bar>x\<bar>" using one by (rule order_trans)
    have "(of_int \<bar>n\<bar> :: rat) < of_int (2 ^ 1023)" using True by (simp only: of_int_less_iff)
    then have hi: "\<bar>x\<bar> < pow2 1023" unfolding xn by (simp add: pow2_def)
    show ?thesis using round_double_error [OF lo hi] by blast
  next
    case False
    then have "(of_int (2 ^ 1023) :: rat) \<le> of_int \<bar>n\<bar>" by (simp only: of_int_le_iff not_less)
    then have lo: "pow2 1023 \<le> \<bar>x\<bar>" unfolding xn by (simp add: pow2_def)
    have "(of_int \<bar>n\<bar> :: rat) < of_int (2 ^ 1024 - 2 ^ 970)"
      using assms by (simp only: of_int_less_iff)
    then have hi': "\<bar>x\<bar> < 2 ^ 1024 - 2 ^ 970" unfolding xn by simp
    then have hi: "\<bar>x\<bar> < pow2 (1023 + 1)" by (simp add: pow2_def)
    have xpos: "0 < \<bar>x\<bar>" using x0 by simp
    have il: "ilog2 \<bar>x\<bar> = 1023" using xpos lo hi by (intro ilog2_unique) auto
    have e: "max (ilog2 \<bar>x\<bar> - 52) (- 1074) = 971" by (simp add: il)
    define r where "r = round_half_even (x / pow2 971)"
    have "\<bar>of_int r - x / pow2 971\<bar> \<le> 1 / 2" unfolding r_def by (rule round_half_even_bounds)
    then have r1: "\<bar>of_int r :: rat\<bar> \<le> \<bar>x / pow2 971\<bar> + 1 / 2" by linarith
    have "\<bar>x\<bar> / pow2 971 < (2 ^ 1024 - 2 ^ 970) / pow2 971"
      using hi' by (intro divide_strict_right_mono) auto
    also have "(2 ^ 1024 - 2 ^ 970) / pow2 971 = (2 ^ 53 - 1 / 2 :: rat)"
      by (simp add: pow2_def)
    finally have "\<bar>x / pow2 971\<bar> < 2 ^ 53 - 1 / 2" by (simp add: abs_divide)
    then have r2: "\<bar>of_int r :: rat\<bar> < 2 ^ 53" using r1 by linarith
    have "\<bar>of_int r :: rat\<bar> * pow2 971 < 2 ^ 53 * pow2 971"
      using r2 by (intro mult_strict_right_mono) auto
    also have "2 ^ 53 * pow2 971 = pow2 1024" by (simp add: pow2_def)
    finally have "\<bar>of_int r * pow2 971 :: rat\<bar> < pow2 1024" by (simp add: abs_mult)
    then have "\<not> pow2 1024 \<le> \<bar>of_int r * pow2 971 :: rat\<bar>" by simp
    then show ?thesis
      unfolding round_double_def e Let_def using x0 by (simp add: r_def)
  qed
  then show ?thesis by (auto simp: float_of_int_def x_def)
qed

lemma py_mul_int_three_halves:
  assumes "\<bar>b\<bar> < 2 ^ 50"
  shows "py_mul (IntN b) (FloatN (Fin (3 / 2))) = Inr (FloatN (Fin (3 / 2 * of_int b)))"
proof -
  have b: "\<bar>b\<bar> < 2 ^ 53" using assms by simp
  have b3: "\<bar>3 * b\<bar> < 2 ^ 53" using assms by simp
  have "round_double (of_int b * (3 / 2)) = Fin (of_int b * (3 / 2))"
    using round_double_exact [of "of_int b * (3 / 2)" "3 * b" "- 1"] b3
    by (simp add: pow2_def)
  then show ?thesis
    using float_of_int_exact [OF b]
    by (simp add: py_mul_def to_float_def bnd_def mult.commute)
qed

lemma fdiv_positive:
  assumes "flt (Fin 0) target"
  shows "\<exists>ratio. fdiv (Fin y) target = Inr ratio"
  using assms by (cases target) simp_all

lemma add_protein_alignment_value:
  assumes "\<bar>get_or 0 (protein_grams d)\<bar> < 2 ^ 1024 - 2 ^ 970" and "flt (Fin 0) target"
  shows "\<exists>p ratio. float_of_int (get_or 0 (protein_grams d)) = Inr p
           \<and> fdiv p target = Inr ratio
           \<and> (\<forall>total_score. add_protein_alignment d (Some target) total_score
                = py_add total_score (FloatN (Fin (3 / 2 * of_int
                    (if fle (lit (8 / 10)) ratio \<and> fle ratio (lit (12 / 10)) then 3
                     else if fle (lit (6 / 10)) ratio \<and> fle ratio (lit (14 / 10)) then 2
                     else if fle (lit (4 / 10)) ratio \<and> fle ratio (lit (16 / 10)) then 1
                     else - 1)))))"
proof -
  obtain y where y: "float_of_int (get_or 0 (protein_grams d)) = Inr (Fin y)"
    using float_of_int_in_range [OF assms(1)] by blast
  obtain ratio where r: "fdiv (Fin y) target = Inr ratio"
    using fdiv_positive [OF assms(2)] by blast
  have nz: "target \<noteq> Fin 0" using assms(2) by auto
  define b :: int where
    "b = (if fle (lit (8 / 10)) ratio \<and> fle ratio (lit (12 / 10)) then 3
          else if fle (lit (6 / 10)) ratio \<and> fle ratio (lit (14 / 10)) then 2
          else if fle (lit (4 / 10)) ratio \<and> fle ratio (lit (16 / 10)) then 1
          else - 1)"
  have "\<bar>b\<bar> < 2 ^ 50" by (simp add: b_def)
  then have m: "py_mul (IntN b) (FloatN (Fin (3 / 2))) = Inr (FloatN (Fin (3 / 2 * of_int b)))"
    by (rule py_mul_int_three_halves)
  have "calculate_protein_score d target = Inr b"
    using nz by (simp add: calculate_protein_score_def Let_def y r bnd_def b_def del: fdiv.simps)
  then have "add_protein_alignment d (Some target) total_score
               = py_add total_score (FloatN (Fin (3 / 2 * of_int b)))" for total_score
    using nz by (simp add: add_protein_alignment_def add_weighted_def bnd_def m)
  then show ?thesis using y r unfolding b_def by blast
qed

subsection \<open>The factors in the comprehensive score\<close>

lemma round_double_0 [simp]: "round_double 0 = Fin 0"
  by (simp add: round_double_def)

lemmas score_steps =
  add_attribute_rankings_def normalize_user_preferences_def add_caloric_alignment_def
  add_protein_alignment_def calculate_protein_score_def add_dietary_match_def
  calculate_dietary_compatibility_def add_allergy_risk_def calculate_allergy_risk_def
  user_allergies_def dish_allergens_def add_meal_timing_def calculate_meal_timing_score_def
  add_persona_bonus_def calculate_persona_match_def add_weighted_def py_mul_def py_add_def
  to_float_def float_of_int_def bnd_def get_or_def blank_dish_def blank_user_def Let_def

lemma lit_4_5: "lit (4 / 5) = Fin (3602879701896397 / 4503599627370496)"
  by (simp add: lit_def band_rd1)

text \<open>
  C6, as stated, fails for a dish whose \<open>protein_grams\<close> is an int beyond the range of a
  double: the ratio \<open>dish_protein / target_protein\<close> converts the int to a float, which
  raises \<open>OverflowError\<close>, so the comprehensive score is not computed.
\<close>

theorem protein_alignment_overflow_counterexample:
  "calculate_comprehensive_score (blank_dish\<lparr>protein_grams := Some (2 ^ 1024)\<rparr>) blank_user
       None (Some (Fin 50))
     = Inl OverflowError"
proof -
  have "pow2 1024 \<le> \<bar>of_int (2 ^ 1024) :: rat\<bar>" by (simp add: pow2_def)
  then have "round_double (of_int (2 ^ 1024)) = PInf"
    using round_double_overflow [of "of_int (2 ^ 1024)"] by simp
  then have "round_double (2 ^ 1024) = PInf" by simp
  then show ?thesis
    by (simp add: calculate_comprehensive_score_def score_steps)
qed

text \<open>
  C6, amended: for a dish whose \<open>protein_grams\<close> converts to a float (its absolute value
  is below \<open>2^1024 - 2^970\<close>) and a positive protein target, the comprehensive score is
  the score of the first two steps, plus 1.5 times the protein factor, followed by the
  remaining four steps; the factor is 3 if the float ratio \<open>protein_grams / target\<close> lies
  in [0.8, 1.2], else 2 if in [0.6, 1.4], else 1 if in [0.4, 1.6], else -1 (the limits
  being the float literals). When the target is absent or 0 nothing is added between the
  second step and the fourth.
\<close>

theorem protein_alignment_factor:
  "let before = bnd (add_attribute_rankings d u (FloatN (Fin 0)))
                  (add_caloric_alignment d target_calories);
       rest = (\<lambda>s3. bnd (add_dietary_match d u s3) (\<lambda>s4.
                    bnd (add_allergy_risk d u s4) (\<lambda>s5.
                    bnd (add_meal_timing d u s5) (\<lambda>s6. add_persona_bonus d u s6))))
   in (\<bar>get_or 0 (protein_grams d)\<bar> < 2 ^ 1024 - 2 ^ 970 \<and> flt (Fin 0) target \<longrightarrow>
        (\<exists>p ratio. float_of_int (get_or 0 (protein_grams d)) = Inr p
           \<and> fdiv p target = Inr ratio
           \<and> calculate_comprehensive_score d u target_calories (Some target)
               = bnd before (\<lambda>s2.
                   bnd (py_add s2 (FloatN (Fin (3 / 2 * of_int
                     (if fle (lit (8 / 10)) ratio \<and> fle ratio (lit (12 / 10)) then 3
                      else if fle (lit (6 / 10)) ratio \<and> fle ratio (lit (14 / 10)) then 2
                      else if fle (lit (4 / 10)) ratio \<and> fle ratio (lit (16 / 10)) then 1
                      else - 1))))) rest)))
      \<and> calculate_comprehensive_score d u target_calories None = bnd before rest
      \<and> calculate_comprehensive_score d u target_calories (Some (Fin 0)) = bnd before rest"
proof -
  have assoc: "bnd (bnd m f) g = bnd m (\<lambda>x. bnd (f x) g)" for m :: "pyerr + pynum" and f g
    by (cases m) (simp_all add: bnd_def)
  have skip: "add_protein_alignment d None s = Inr s"
    "add_protein_alignment d (Some (Fin 0)) s = Inr s" for s
    by (simp_all add: add_protein_alignment_def)
  have inr: "bnd (Inr s) f = f s" for s :: pynum and f :: "pynum \<Rightarrow> pyerr + pynum"
    by (simp add: bnd_def)
  have a: "calculate_comprehensive_score d u target_calories None
             = bnd (bnd (add_attribute_rankings d u (FloatN (Fin 0)))
                  (add_caloric_alignment d target_calories))
                 (\<lambda>s3. bnd (add_dietary_match d u s3) (\<lambda>s4.
                    bnd (add_allergy_risk d u s4) (\<lambda>s5.
                    bnd (add_meal_timing d u s5) (\<lambda>s6. add_persona_bonus d u s6))))"
    unfolding calculate_comprehensive_score_def assoc skip inr ..
  have b: "calculate_comprehensive_score d u target_calories (Some (Fin 0))
             = bnd (bnd (add_attribute_rankings d u (FloatN (Fin 0)))
                  (add_caloric_alignment d target_calories))
                 (\<lambda>s3. bnd (add_dietary_match d u s3) (\<lambda>s4.
                    bnd (add_allergy_risk d u s4) (\<lambda>s5.
                    bnd (add_meal_timing d u s5) (\<lambda>s6. add_persona_bonus d u s6))))"
    unfolding calculate_comprehensive_score_def assoc skip inr ..
  have c: "\<exists>p ratio. float_of_int (get_or 0 (protein_grams d)) = Inr p
           \<and> fdiv p target = Inr ratio
           \<and> calculate_comprehensive_score d u target_calories (Some target)
               = bnd (bnd (add_attribute_rankings d u (FloatN (Fin 0)))
                        (add_caloric_alignment d target_calories)) (\<lambda>s2.
                   bnd (py_add s2 (FloatN (Fin (3 / 2 * of_int
                     (if fle (lit (8 / 10)) ratio \<and> fle ratio (lit (12 / 10)) then 3
                      else if fle (lit (6 / 10)) ratio \<and> fle ratio (lit (14 / 10)) then 2
                      else if fle (lit (4 / 10)) ratio \<and> fle ratio (lit (16 / 10)) then 1
                      else - 1)))))
                     (\<lambda>s3. bnd (add_dietary_match d u s3) (\<lambda>s4.
                        bnd (add_allergy_risk d u s4) (\<lambda>s5.
                        bnd (add_meal_timing d u s5) (\<lambda>s6. add_persona_bonus d u s6)))))"
    if h: "\<bar>get_or 0 (protein_grams d)\<bar> < 2 ^ 1024 - 2 ^ 970 \<and> flt (Fin 0) target"
  proof -
    from h have h1: "\<bar>get_or 0 (protein_grams d)\<bar> < 2 ^ 1024 - 2 ^ 970"
      and h2: "flt (Fin 0) target" by blast+
    from add_protein_alignment_value [OF h1 h2]
    obtain p ratio where p: "float_of_int (get_or 0 (protein_grams d)) = Inr p"
      and r: "fdiv p target = Inr ratio"
      and v: "\<And>s. add_protein_alignment d (Some target) s
                = py_add s (FloatN (Fin (3 / 2 * of_int
                    (if fle (lit (8 / 10)) ratio \<and> fle ratio (lit (12 / 10)) then 3
                     else if fle (lit (6 / 10)) ratio \<and> fle ratio (lit (14 / 10)) then 2
                     else if fle (lit (4 / 10)) ratio \<and> fle ratio (lit (16 / 10)) then 1
                     else - 1))))"
      by blast
    show ?thesis
      apply (rule exI [of _ p], rule exI [of _ ratio])
      unfolding calculate_comprehensive_score_def assoc v
      using p r by blast
  qed
  show ?thesis unfolding Let_def using a b c by blast
qed

theorem protein_alignment_factor_witness:
  "calculate_comprehensive_score (blank_dish\<lparr>protein_grams := Some 30\<rparr>) blank_user None
       (Some (Fin 25))
     = Inr (FloatN (Fin (9 / 2)))
   \<and> calculate_comprehensive_score (blank_dish\<lparr>protein_grams := Some 30\<rparr>) blank_user None None
     = Inr (FloatN (Fin 0))"
proof -
  let ?d = "blank_dish\<lparr>protein_grams := Some 30\<rparr>"
  have g: "get_or 0 (protein_grams ?d) = 30" by (simp add: blank_dish_def get_or_def)
  have h: "\<bar>get_or 0 (protein_grams ?d)\<bar> < 2 ^ 1024 - 2 ^ 970 \<and> flt (Fin 0) (Fin 25)"
    unfolding g by simp
  have f: "float_of_int 30 = Inr (Fin 30)" using float_of_int_exact [of 30] by simp
  have q: "fdiv (Fin 30) (Fin 25) = Inr (Fin (5404319552844595 / 4503599627370496))"
    using band_rd2 by simp
  have s: "round_double (9 / 2) = Fin (9 / 2)"
    using round_double_exact [of "9 / 2" 9 "- 1"] by (simp add: pow2_def)
  have before: "bnd (add_attribute_rankings ?d blank_user (FloatN (Fin 0)))
                  (add_caloric_alignment ?d None) = Inr (FloatN (Fin 0))"
    by (simp add: score_steps)
  have rest: "bnd (add_dietary_match ?d blank_user (FloatN (Fin x))) (\<lambda>s4.
                bnd (add_allergy_risk ?d blank_user s4) (\<lambda>s5.
                bnd (add_meal_timing ?d blank_user s5) (\<lambda>s6. add_persona_bonus ?d blank_user s6)))
              = Inr (FloatN (Fin x))"
    if "round_double x = Fin x" for x
    using that by (simp add: score_steps lit_4_5)
  have bi: "bnd (Inr v) k = k v" for v :: pynum and k :: "pynum \<Rightarrow> pyerr + pynum"
    by (simp add: bnd_def)
  have bf: "bnd (Inr v) k = k v" for v :: pyfloat and k :: "pyfloat \<Rightarrow> pyerr + pynum"
    by (simp add: bnd_def)
  show ?thesis
    using protein_alignment_factor [of ?d blank_user None "Fin 25"] h
    unfolding Let_def g before
    by (simp add: f q s bi bf py_add_def to_float_def rest lit_def band_rd1 band_rd2
        band_rd3 band_rd4 band_rd5 band_rd6 del: fdiv.simps)
qed




text \<open>
  C8: let \<open>n\<close> be the number of distinct tags of the dish's \<open>time_of_day_suitability\<close>
  that contain, ignoring case, a preferred time of the user that is, in lower case, one of
  \<open>morning\<close>, \<open>afternoon\<close>, \<open>evening\<close>, \<open>night\<close>, \<open>snacks\<close>. The comprehensive score is
  the score of the first five steps plus \<open>0.25 n\<close>, followed by the persona step; and
  \<open>n\<close> is 0 when the user's preferred times or the dish's tags are empty. The count is
  multiplied by 0.5 twice in floats, which is exact for every count below \<open>2^53\<close>.
\<close>

theorem meal_timing_factor:
  "let n = card {t \<in> set (get_or [] (time_of_day_suitability d)).
                   \<exists>time \<in> set (get_or [] (preferred_meal_times u)).
                     py_lower time \<in> {''morning'', ''afternoon'', ''evening'', ''night'', ''snacks''}
                     \<and> (\<exists>p q. py_lower t = p @ py_lower time @ q)}
   in (n < 2 ^ 53 \<longrightarrow>
        calculate_comprehensive_score d u target_calories target_protein
          = bnd (add_attribute_rankings d u (FloatN (Fin 0))) (\<lambda>s1.
            bnd (add_caloric_alignment d target_calories s1) (\<lambda>s2.
            bnd (add_protein_alignment d target_protein s2) (\<lambda>s3.
            bnd (add_dietary_match d u s3) (\<lambda>s4.
            bnd (add_allergy_risk d u s4) (\<lambda>s5.
            bnd (py_add s5 (FloatN (Fin (of_nat n / 4)))) (\<lambda>s6.
            add_persona_bonus d u s6)))))))
      \<and> (get_or [] (preferred_meal_times u) = []
           \<or> get_or [] (time_of_day_suitability d) = [] \<longrightarrow> n = 0)"
proof -
  define S where "S = {t \<in> set (get_or [] (time_of_day_suitability d)).
                   \<exists>time \<in> set (get_or [] (preferred_meal_times u)).
                     py_lower time \<in> {''morning'', ''afternoon'', ''evening'', ''night'', ''snacks''}
                     \<and> (\<exists>p q. py_lower t = p @ py_lower time @ q)}"
  have a: "calculate_comprehensive_score d u target_calories target_protein
          = bnd (add_attribute_rankings d u (FloatN (Fin 0))) (\<lambda>s1.
            bnd (add_caloric_alignment d target_calories s1) (\<lambda>s2.
            bnd (add_protein_alignment d target_protein s2) (\<lambda>s3.
            bnd (add_dietary_match d u s3) (\<lambda>s4.
            bnd (add_allergy_risk d u s4) (\<lambda>s5.
            bnd (py_add s5 (FloatN (Fin (of_nat (card S) / 4)))) (\<lambda>s6.
            add_persona_bonus d u s6))))))"
    if "card S < 2 ^ 53"
    unfolding calculate_comprehensive_score_def
      add_meal_timing_value [OF that [unfolded S_def], folded S_def] ..
  have b: "card S = 0"
    if "get_or [] (preferred_meal_times u) = [] \<or> get_or [] (time_of_day_suitability d) = []"
  proof -
    have "S = {}" using that unfolding S_def by auto
    then show ?thesis by simp
  qed
  show ?thesis unfolding Let_def S_def [symmetric] using a b by blast
qed

theorem meal_timing_factor_witness:
  "calculate_comprehensive_score
       (blank_dish\<lparr>time_of_day_suitability := Some [''Early Morning'', ''Night'']\<rparr>)
       (blank_user\<lparr>preferred_meal_times := Some [''MORNING'', ''noon'']\<rparr>) None None
     = Inr (FloatN (Fin (1 / 4)))"
proof -
  let ?d = "blank_dish\<lparr>time_of_day_suitability := Some [''Early Morning'', ''Night'']\<rparr>"
  let ?u = "blank_user\<lparr>preferred_meal_times := Some [''MORNING'', ''noon'']\<rparr>"
  have ds: "get_or [] (time_of_day_suitability ?d) = [''Early Morning'', ''Night'']"
    by (simp add: blank_dish_def get_or_def)
  have us: "get_or [] (preferred_meal_times ?u) = [''MORNING'', ''noon'']"
    by (simp add: blank_user_def get_or_def)
  have lw: "py_lower ''MORNING'' = ''morning''" "py_lower ''noon'' = ''noon''"
    "py_lower ''Early Morning'' = ''early morning''" "py_lower ''Night'' = ''night''"
    by (simp_all add: py_lower_def lower_char_def)
  have "{t \<in> set [''Early Morning'', ''Night''].
           \<exists>time \<in> set [''MORNING'', ''noon''].
             py_lower time \<in> {''morning'', ''afternoon'', ''evening'', ''night'', ''snacks''}
             \<and> (\<exists>p q. py_lower t = p @ py_lower time @ q)} = {''Early Morning''}"
    unfolding py_in_str_iff [symmetric] by (auto simp: lw)
  then have c: "card {t \<in> set (get_or [] (time_of_day_suitability ?d)).
                   \<exists>time \<in> set (get_or [] (preferred_meal_times ?u)).
                     py_lower time \<in> {''morning'', ''afternoon'', ''evening'', ''night'', ''snacks''}
                     \<and> (\<exists>p q. py_lower t = p @ py_lower time @ q)} = 1"
    unfolding ds us by simp
  have r: "round_double (1 / 4) = Fin (1 / 4)"
    using round_double_exact [of "1 / 4" 1 "- 2"] by (simp add: pow2_def)
  have first: "bnd (add_attribute_rankings ?d ?u (FloatN (Fin 0))) (\<lambda>s1.
            bnd (add_caloric_alignment ?d None s1) (\<lambda>s2.
            bnd (add_protein_alignment ?d None s2) (\<lambda>s3.
            bnd (add_dietary_match ?d ?u s3) (\<lambda>s4.
            bnd (add_allergy_risk ?d ?u s4) f)))) = f (FloatN (Fin 0))"
    for f :: "pynum \<Rightarrow> pyerr + pynum"
    by (simp add: add_attribute_rankings_def normalize_user_preferences_def
        add_caloric_alignment_def add_protein_alignment_def add_dietary_match_def
        calculate_dietary_compatibility_def add_allergy_risk_def calculate_allergy_risk_def
        user_allergies_def dish_allergens_def add_weighted_def py_mul_def py_add_def
        to_float_def float_of_int_def bnd_def get_or_def blank_dish_def blank_user_def Let_def)
  have last: "add_persona_bonus ?d ?u (FloatN (Fin (1 / 4))) = Inr (FloatN (Fin (1 / 4)))"
    by (simp add: add_persona_bonus_def calculate_persona_match_def add_weighted_def
        py_mul_def py_add_def to_float_def float_of_int_def bnd_def get_or_def blank_dish_def
        blank_user_def Let_def lit_4_5 r)
  show ?thesis
    using meal_timing_factor [of ?d ?u None None]
    unfolding Let_def c first
    by (simp add: py_add_def to_float_def bnd_def r last)
qed

end
